theory Spec2Isabelle
  imports Main "HOL-Library.Multiset"
begin

text \<open>
  The repository is a flowchart editor around a diagram widget. Its own logic is the
  converter between the live model of the widget and a JSON document
  (\<^verbatim>\<open>src/utils/graphDataConverter.ts\<close>: the style codec \<^verbatim>\<open>parseStyle\<close> and
  \<^verbatim>\<open>formatStyle\<close>, the export \<^verbatim>\<open>exportGraphToJSON\<close> and the two-pass import
  \<^verbatim>\<open>importGraphFromJSON\<close>) and the validation of a response of the AI service
  (\<^verbatim>\<open>src/services/aiService.ts\<close>: \<^verbatim>\<open>validateAIResponse\<close>). This theory embeds these
  functions and proves properties of them.
\<close>

section \<open>Strings and the built-ins of the host language\<close>

text \<open>
  The converter is TypeScript. Its strings are modelled as \<^typ>\<open>string\<close>, read as
  sequences of code units in the range U+0000 to U+00FF. Its numbers are IEEE doubles,
  produced and printed by the built-ins \<^verbatim>\<open>Number\<close>, \<^verbatim>\<open>isNaN\<close> and \<^verbatim>\<open>String\<close>
  of the language, which are no part of the repository. They are taken as parameters:
  a value of type \<open>'n builtins\<close> supplies them for a number type \<open>'n\<close>, whose equality
  is the one of \<^verbatim>\<open>===\<close> on numbers other than NaN.
\<close>

record 'n builtins =
  js_Number :: "string \<Rightarrow> 'n"
  js_isNaN :: "'n \<Rightarrow> bool"
  js_String :: "'n \<Rightarrow> string"
  js_zero :: "'n"

text \<open>White space and line terminators, as \<^verbatim>\<open>String.prototype.trim\<close> removes them:
  TAB, LF, VT, FF, CR, SP and NBSP are the ones below U+0100.\<close>

definition is_ws :: "char \<Rightarrow> bool" where
  "is_ws c = (c \<in> set [CHR 0x09, CHR 0x0A, CHR 0x0B, CHR 0x0C, CHR 0x0D, CHR 0x20, CHR 0xA0])"

definition trim :: "string \<Rightarrow> string" where
  "trim s = rev (dropWhile is_ws (rev (dropWhile is_ws s)))"

text \<open>\<^verbatim>\<open>s.split(c)\<close> for a separator of one code unit: one more piece than there are
  separators, so the empty string splits into one empty piece.\<close>

fun split_on :: "char \<Rightarrow> string \<Rightarrow> string list" where
  "split_on c [] = [[]]"
| "split_on c (x # xs) =
     (if x = c then [] # split_on c xs
      else (case split_on c xs of
              [] \<Rightarrow> [[x]]
            | p # ps \<Rightarrow> (x # p) # ps))"

text \<open>\<^verbatim>\<open>parts.join(sep)\<close>.\<close>

fun join_with :: "string \<Rightarrow> string list \<Rightarrow> string" where
  "join_with sep [] = []"
| "join_with sep [p] = p"
| "join_with sep (p # q # ps) = p @ sep @ join_with sep (q # ps)"

text \<open>Reading an array at an index that may be out of range gives \<^verbatim>\<open>undefined\<close>,
  here \<open>None\<close>; this is what the destructuring \<^verbatim>\<open>const [key, value] = ...\<close> does.\<close>

definition at_index :: "'a list \<Rightarrow> nat \<Rightarrow> 'a option" where
  "at_index xs i = (if i < length xs then Some (xs ! i) else None)"

section \<open>Style values and style mappings\<close>

text \<open>
  A style value (\<^verbatim>\<open>CellStyle\<close>'s \<^verbatim>\<open>[key: string]: any\<close>, narrowed to the scalars the
  document format allows, with \<^verbatim>\<open>undefined\<close> and \<^verbatim>\<open>null\<close>).
\<close>

datatype 'n jsval = JUndefined | JNull | JBool bool | JNum 'n | JStr string

text \<open>
  A style mapping is a plain object. It is represented by the list of its own entries
  in the order \<^verbatim>\<open>Object.entries\<close> enumerates them, each key once.
\<close>

type_synonym 'n CellStyle = "(string \<times> 'n jsval) list"

text \<open>
  Keys that are array indices (canonical decimal numerals up to \<open>2^32 - 2\<close>) are
  enumerated first, in ascending numeric order; all other keys follow in the order in
  which they were created.
\<close>

definition is_digit :: "char \<Rightarrow> bool" where
  "is_digit c = (c \<in> set ''0123456789'')"

definition digit_val :: "char \<Rightarrow> int" where
  "digit_val c = of_char c - 48"

definition decimal_val :: "string \<Rightarrow> int" where
  "decimal_val s = foldl (\<lambda>n c. 10 * n + digit_val c) 0 s"

definition is_array_index :: "string \<Rightarrow> bool" where
  "is_array_index k =
     (k \<noteq> [] \<and> list_all is_digit k \<and> (if hd k = CHR ''0'' then k = ''0'' else True)
      \<and> decimal_val k \<le> 4294967294)"

text \<open>Where a new key goes among the entries: before the first key it goes before.\<close>

definition goes_before :: "string \<Rightarrow> string \<Rightarrow> bool" where
  "goes_before k k' =
     (is_array_index k \<and> (\<not> is_array_index k' \<or> decimal_val k < decimal_val k'))"

fun insert_entry :: "string \<Rightarrow> 'v \<Rightarrow> (string \<times> 'v) list \<Rightarrow> (string \<times> 'v) list" where
  "insert_entry k v [] = [(k, v)]"
| "insert_entry k v ((k', v') # es) =
     (if goes_before k k' then (k, v) # (k', v') # es
      else (k', v') # insert_entry k v es)"

fun update_entry :: "string \<Rightarrow> 'v \<Rightarrow> (string \<times> 'v) list \<Rightarrow> (string \<times> 'v) list" where
  "update_entry k v [] = []"
| "update_entry k v ((k', v') # es) =
     (if k' = k then (k, v) # es else (k', v') # update_entry k v es)"

text \<open>
  The assignment \<^verbatim>\<open>style[k] = v\<close> on a plain object, for a scalar \<open>v\<close>: an existing
  key keeps its place and takes the new value, a new key is created. The key
  \<^verbatim>\<open>__proto__\<close> is the accessor inherited from \<^verbatim>\<open>Object.prototype\<close>; assigning a
  scalar to it creates no entry.
\<close>

definition obj_set :: "'n CellStyle \<Rightarrow> string \<Rightarrow> 'n jsval \<Rightarrow> 'n CellStyle" where
  "obj_set style k v =
     (if k = ''__proto__'' then style
      else if k \<in> fst ` set style then update_entry k v style
      else insert_entry k v style)"

section \<open>The style codec\<close>

text \<open>\<^verbatim>\<open>parseStyleValue\<close>: the three tests in the order of the source.\<close>

definition parseStyleValue :: "'n builtins \<Rightarrow> string \<Rightarrow> 'n jsval" where
  "parseStyleValue B v =
     (if v = ''true'' then JBool True
      else if v = ''false'' then JBool False
      else if \<not> js_isNaN B (js_Number B v) then JNum (js_Number B v)
      else JStr v)"

text \<open>
  The body of the \<^verbatim>\<open>forEach\<close> of \<^verbatim>\<open>parseStyle\<close>: \<^verbatim>\<open>part.split('=')\<close> cuts at every
  \<open>=\<close>, the destructuring keeps the pieces at index 0 and 1, and the guard
  \<^verbatim>\<open>key && value\<close> wants both to be non-empty strings, tested before they are trimmed.
\<close>

definition parse_part :: "'n builtins \<Rightarrow> string \<Rightarrow> 'n CellStyle \<Rightarrow> 'n CellStyle" where
  "parse_part B part style =
     (let fields = split_on CHR ''='' part in
      case (at_index fields 0, at_index fields 1) of
        (Some key, Some val) \<Rightarrow>
          if key \<noteq> [] \<and> val \<noteq> []
          then obj_set style (trim key) (parseStyleValue B (trim val))
          else style
      | _ \<Rightarrow> style)"

definition parseStyle :: "'n builtins \<Rightarrow> string \<Rightarrow> 'n CellStyle" where
  "parseStyle B styleStr =
     (if styleStr = [] then []
      else fold (parse_part B) (split_on CHR '';'' styleStr) [])"

text \<open>\<^verbatim>\<open>String(value)\<close> on a style value.\<close>

fun string_of_val :: "'n builtins \<Rightarrow> 'n jsval \<Rightarrow> string" where
  "string_of_val B JUndefined = ''undefined''"
| "string_of_val B JNull = ''null''"
| "string_of_val B (JBool b) = (if b then ''true'' else ''false'')"
| "string_of_val B (JNum n) = js_String B n"
| "string_of_val B (JStr s) = s"

text \<open>The body of the \<^verbatim>\<open>forEach\<close> of \<^verbatim>\<open>formatStyle\<close>, pushing onto \<open>parts\<close>.\<close>

definition format_entry :: "'n builtins \<Rightarrow> string \<times> 'n jsval \<Rightarrow> string list \<Rightarrow> string list" where
  "format_entry B e parts =
     (case e of (key, v) \<Rightarrow>
        if v \<noteq> JUndefined \<and> v \<noteq> JNull
        then parts @ [key @ ''='' @ string_of_val B v]
        else parts)"

definition formatStyle :: "'n builtins \<Rightarrow> 'n CellStyle \<Rightarrow> string" where
  "formatStyle B style = join_with '';'' (fold (format_entry B) style [])"

section \<open>Documents\<close>

text \<open>The wire format: \<^verbatim>\<open>GeometryData\<close>, \<^verbatim>\<open>GraphCell\<close> and \<^verbatim>\<open>GraphData\<close>. An optional
  field that is absent is \<open>None\<close>.\<close>

record 'n GeometryData =
  geo_x :: 'n
  geo_y :: 'n
  geo_width :: 'n
  geo_height :: 'n

datatype cell_type = Vertex | Edge

record 'n GraphCell =
  gc_id :: string
  gc_type :: cell_type
  gc_value :: string
  gc_geometry :: "'n GeometryData"
  gc_style :: "'n CellStyle"
  gc_source :: "string option"
  gc_target :: "string option"
  gc_parent :: "string option"

record 'n Viewport =
  vp_scale :: 'n
  vp_translate :: "'n \<times> 'n"

record 'n GraphData =
  gd_cells :: "'n GraphCell list"
  gd_viewport :: "'n Viewport option"

section \<open>The live model of the diagram widget\<close>

text \<open>
  The widget (mxGraph) is a library outside the repository; the converter sees it
  through the calls declared for \<^verbatim>\<open>mxGraph\<close> and \<^verbatim>\<open>mxCell\<close>. The cells that the
  widget has created are kept in a store, in order of creation; a handle is the
  position of a cell in the store. A cell is the record of what its accessors return
  (\<open>None\<close> for \<^verbatim>\<open>null\<close> or \<^verbatim>\<open>undefined\<close>). The converter may hand to
  \<^verbatim>\<open>insertEdge\<close> a cell or some other value (\<open>Foreign\<close>) as an end.
\<close>

type_synonym handle = nat

datatype terminal = Cell handle | Foreign

record 'n mxCell =
  getId :: "string option"
  getValue :: "string option"
  getGeometry :: "'n GeometryData option"
  getStyle :: "string option"
  isEdge :: bool
  isVertex :: bool
  getParent :: "handle option"
  getSource :: "terminal option"
  getTarget :: "terminal option"

text \<open>The graph: its cells, the root of its model, its field \<^verbatim>\<open>defaultParent\<close>
  (unset unless the application sets it) and the scale and translation of its view.\<close>

record 'n mxGraph =
  store :: "'n mxCell list"
  getRoot :: "handle option"
  defaultParent :: "handle option"
  getScale :: 'n
  getTranslate :: "'n \<times> 'n"

text \<open>
  Four things are left to the widget and taken as parameters: the id that the counter
  of the model gives to a cell whose own id is taken (\<open>createId\<close>); what a cell has
  under a property name, read as an end of an edge (\<open>member\<close>: a cell, some other
  truthy value, or \<open>None\<close> for a falsy one); the style that an edge keeps when its
  ends are connected, where the widget rewrites the port entries (\<open>connectedStyle\<close>);
  and the parent that an edge ends up with when its ends are not both children of the
  parent it was inserted under (\<open>movedParent\<close>).
\<close>

record 'n widget =
  createId :: "'n mxGraph \<Rightarrow> string"
  member :: "'n mxGraph \<Rightarrow> handle \<Rightarrow> string \<Rightarrow> terminal option"
  connectedStyle :: "string \<Rightarrow> string"
  movedParent :: "'n mxGraph \<Rightarrow> handle \<Rightarrow> handle \<Rightarrow> handle \<Rightarrow> handle"

text \<open>\<^verbatim>\<open>cell.children\<close>: the cells whose parent is the given one. Cells are added at
  the end of the children of their parent, so the order is the one of creation.\<close>

definition children :: "'n mxGraph \<Rightarrow> handle \<Rightarrow> handle list" where
  "children g p = filter (\<lambda>h. getParent (store g ! h) = Some p) [0..<length (store g)]"

text \<open>\<open>below g n hs h\<close>: the cell \<open>h\<close> is one of \<open>hs\<close> or has one of them
  among its ancestors, following at most \<open>n\<close> parent links.\<close>

fun below :: "'n mxGraph \<Rightarrow> nat \<Rightarrow> handle list \<Rightarrow> handle \<Rightarrow> bool" where
  "below g 0 hs h = (h \<in> set hs)"
| "below g (Suc n) hs h =
     (h \<in> set hs \<or>
      (case at_index (store g) h of
         None \<Rightarrow> False
       | Some c \<Rightarrow> (case getParent c of None \<Rightarrow> False | Some p \<Rightarrow> below g n hs p)))"

text \<open>\<^verbatim>\<open>model.contains(cell)\<close>: the cell is the root or has it among its ancestors.\<close>

definition contains :: "'n mxGraph \<Rightarrow> handle \<Rightarrow> bool" where
  "contains g h =
     (case getRoot g of None \<Rightarrow> False | Some r \<Rightarrow> below g (length (store g)) [r] h)"

text \<open>
  The model keeps its cells in a dictionary by id, a plain object. \<^verbatim>\<open>model.getCell(id)\<close>
  reads it: the result is not \<^verbatim>\<open>null\<close> when a cell of the model has the id, and
  also when the id names a member that a plain object inherits from
  \<^verbatim>\<open>Object.prototype\<close> (\<^verbatim>\<open>__proto__\<close> included).
\<close>

definition object_prototype_members :: "string list" where
  "object_prototype_members =
     [''constructor'', ''hasOwnProperty'', ''isPrototypeOf'', ''propertyIsEnumerable'',
      ''toLocaleString'', ''toString'', ''valueOf'', ''__defineGetter__'',
      ''__defineSetter__'', ''__lookupGetter__'', ''__lookupSetter__'']"

definition inherited :: "string \<Rightarrow> bool" where
  "inherited k = (k = ''__proto__'' \<or> k \<in> set object_prototype_members)"

definition taken :: "'n mxGraph \<Rightarrow> string \<Rightarrow> bool" where
  "taken g k =
     (inherited k \<or>
      list_ex (\<lambda>h. contains g h \<and> getId (store g ! h) = Some k) [0..<length (store g)])"

text \<open>\<^verbatim>\<open>graph.getDefaultParent()\<close>: the field \<^verbatim>\<open>defaultParent\<close> if set, or else the
  first child of the root, if there is one.\<close>

definition getDefaultParent :: "'n mxGraph \<Rightarrow> handle option" where
  "getDefaultParent g =
     (case defaultParent g of
        Some p \<Rightarrow> Some p
      | None \<Rightarrow>
          (case getRoot g of
             None \<Rightarrow> None
           | Some r \<Rightarrow> (case children g r of [] \<Rightarrow> None | c # cs \<Rightarrow> Some c)))"

text \<open>
  \<^verbatim>\<open>graph.removeCells(cells)\<close> takes the given cells out of their parents, and with
  them the edges that have an end at one of these cells or below it. What was below a
  removed cell stays below it and is no longer in the model.
\<close>

definition attached :: "'n mxGraph \<Rightarrow> handle list \<Rightarrow> handle \<Rightarrow> bool" where
  "attached g hs h =
     (isEdge (store g ! h) \<and>
      ((case getSource (store g ! h) of
          Some (Cell s) \<Rightarrow> below g (length (store g)) hs s | _ \<Rightarrow> False) \<or>
       (case getTarget (store g ! h) of
          Some (Cell t) \<Rightarrow> below g (length (store g)) hs t | _ \<Rightarrow> False)))"

definition removeCells :: "'n mxGraph \<Rightarrow> handle list \<Rightarrow> 'n mxGraph" where
  "removeCells g hs =
     g\<lparr>store := map (\<lambda>h. if h \<in> set hs \<or> attached g hs h
                          then (store g ! h)\<lparr>getParent := None\<rparr> else store g ! h)
                   [0..<length (store g)]\<rparr>"

text \<open>
  A cell that is added under a parent of the model is entered in the dictionary of the
  model; when its id is taken it gets a new one first. A cell added under a parent
  that is not in the model keeps its id.
\<close>

definition added_id :: "'n widget \<Rightarrow> 'n mxGraph \<Rightarrow> handle \<Rightarrow> string \<Rightarrow> string" where
  "added_id W g p ident =
     (if contains g p \<and> taken g ident then createId W g else ident)"

text \<open>
  \<^verbatim>\<open>graph.insertVertex\<close> creates a vertex from its arguments and returns it. The
  vertex is added to the parent given, or to the default parent when none is given;
  when there is neither, the vertex is created and returned without being added
  anywhere.
\<close>

definition graph_insertVertex ::
  "'n widget \<Rightarrow> 'n mxGraph \<Rightarrow> handle option \<Rightarrow> string \<Rightarrow> string \<Rightarrow> 'n \<Rightarrow> 'n \<Rightarrow> 'n \<Rightarrow> 'n \<Rightarrow> string
   \<Rightarrow> 'n mxGraph \<times> handle" where
  "graph_insertVertex W g parent ident val gx gy gw gh styleStr =
     (let p = (case parent of Some q \<Rightarrow> Some q | None \<Rightarrow> getDefaultParent g) in
      (g\<lparr>store := store g @
         [\<lparr>getId = Some (case p of None \<Rightarrow> ident | Some q \<Rightarrow> added_id W g q ident),
           getValue = Some val,
           getGeometry = Some \<lparr>geo_x = gx, geo_y = gy, geo_width = gw, geo_height = gh\<rparr>,
           getStyle = Some styleStr, isEdge = False, isVertex = True,
           getParent = p, getSource = None, getTarget = None\<rparr>]\<rparr>,
       length (store g)))"

text \<open>
  \<^verbatim>\<open>graph.insertEdge\<close> creates an edge, with a geometry of its own, all zero. Without
  a parent (given or default) the edge is returned as created: added nowhere and
  connected to nothing. With a parent the edge is added and then connected to its
  ends, the source first; connecting calls a method of the end, which throws a
  \<^verbatim>\<open>TypeError\<close> when the end is no cell. An edge whose ends are both children of its
  parent stays there.
\<close>

datatype js_error = TypeError

definition graph_insertEdge ::
  "'n builtins \<Rightarrow> 'n widget \<Rightarrow> 'n mxGraph \<Rightarrow> handle option \<Rightarrow> string \<Rightarrow> string
   \<Rightarrow> terminal \<Rightarrow> terminal \<Rightarrow> string \<Rightarrow> js_error + 'n mxGraph \<times> handle" where
  "graph_insertEdge B W g parent ident val src tgt styleStr =
     (let zero = \<lparr>geo_x = js_zero B, geo_y = js_zero B,
                   geo_width = js_zero B, geo_height = js_zero B\<rparr> in
      case (case parent of Some q \<Rightarrow> Some q | None \<Rightarrow> getDefaultParent g) of
        None \<Rightarrow>
          Inr (g\<lparr>store := store g @
                 [\<lparr>getId = Some ident, getValue = Some val, getGeometry = Some zero,
                   getStyle = Some styleStr, isEdge = True, isVertex = False,
                   getParent = None, getSource = None, getTarget = None\<rparr>]\<rparr>,
               length (store g))
      | Some p \<Rightarrow>
          (case (src, tgt) of
             (Cell s, Cell t) \<Rightarrow>
               Inr (g\<lparr>store := store g @
                      [\<lparr>getId = Some (added_id W g p ident), getValue = Some val,
                        getGeometry = Some zero,
                        getStyle = Some (connectedStyle W styleStr),
                        isEdge = True, isVertex = False,
                        getParent =
                          Some (if s \<in> set (children g p) \<and> t \<in> set (children g p) then p
                                else movedParent W g p s t),
                        getSource = Some (Cell s), getTarget = Some (Cell t)\<rparr>]\<rparr>,
                    length (store g))
           | _ \<Rightarrow> Inl TypeError))"

section \<open>Export\<close>

text \<open>\<^verbatim>\<open>a || b\<close> on a number and on a string that may be missing.\<close>

definition num_or :: "'n builtins \<Rightarrow> 'n \<Rightarrow> 'n \<Rightarrow> 'n" where
  "num_or B a b = (if a = js_zero B \<or> js_isNaN B a then b else a)"

definition str_or_empty :: "string option \<Rightarrow> string" where
  "str_or_empty s = (case s of None \<Rightarrow> [] | Some t \<Rightarrow> t)"

definition str_or_undefined :: "string option \<Rightarrow> string option" where
  "str_or_undefined s = (case s of None \<Rightarrow> None | Some t \<Rightarrow> if t = [] then None else Some t)"

text \<open>\<^verbatim>\<open>c?.getId?.()\<close> for what may be a cell of the store.\<close>

definition id_of_cell :: "'n mxGraph \<Rightarrow> handle option \<Rightarrow> string option" where
  "id_of_cell g c =
     (case c of
        None \<Rightarrow> None
      | Some h \<Rightarrow> (case at_index (store g) h of None \<Rightarrow> None | Some cell \<Rightarrow> getId cell))"

definition id_of_terminal :: "'n mxGraph \<Rightarrow> terminal option \<Rightarrow> string option" where
  "id_of_terminal g t =
     (case t of
        None \<Rightarrow> None
      | Some Foreign \<Rightarrow> None
      | Some (Cell h) \<Rightarrow> id_of_cell g (Some h))"

definition cellToJSON :: "'n builtins \<Rightarrow> 'n mxGraph \<Rightarrow> 'n mxCell option \<Rightarrow> 'n GraphCell option" where
  "cellToJSON B g c =
     (case c of
        None \<Rightarrow> None
      | Some cell \<Rightarrow>
          if \<not> isEdge cell \<and> \<not> isVertex cell then None
          else Some
            \<lparr>gc_id = str_or_empty (getId cell),
             gc_type = (if isEdge cell then Edge else Vertex),
             gc_value = str_or_empty (getValue cell),
             gc_geometry =
               (case getGeometry cell of
                  Some geometry \<Rightarrow>
                    \<lparr>geo_x = num_or B (geo_x geometry) (js_zero B),
                     geo_y = num_or B (geo_y geometry) (js_zero B),
                     geo_width = num_or B (geo_width geometry) (js_zero B),
                     geo_height = num_or B (geo_height geometry) (js_zero B)\<rparr>
                | None \<Rightarrow>
                    \<lparr>geo_x = js_zero B, geo_y = js_zero B,
                     geo_width = js_zero B, geo_height = js_zero B\<rparr>),
             gc_style = parseStyle B (str_or_empty (getStyle cell)),
             gc_source =
               (if isEdge cell then str_or_undefined (id_of_terminal g (getSource cell))
                else None),
             gc_target =
               (if isEdge cell then str_or_undefined (id_of_terminal g (getTarget cell))
                else None),
             gc_parent = str_or_undefined (id_of_cell g (getParent cell))\<rparr>)"

definition exportGraphToJSON :: "'n builtins \<Rightarrow> 'n mxGraph \<Rightarrow> 'n GraphData" where
  "exportGraphToJSON B g =
     (let cellsToProcess = (case getRoot g of None \<Rightarrow> [] | Some root \<Rightarrow> children g root) in
      \<lparr>gd_cells = List.map_filter (\<lambda>h. cellToJSON B g (at_index (store g) h)) cellsToProcess,
       gd_viewport = Some \<lparr>vp_scale = getScale g, vp_translate = getTranslate g\<rparr>\<rparr>)"

section \<open>Import\<close>

text \<open>
  \<^verbatim>\<open>idMap\<close> is a plain object used as a dictionary from ids to cells. Writing
  \<^verbatim>\<open>idMap[id] = cell\<close> creates or overwrites an own property, except for the id
  \<^verbatim>\<open>__proto__\<close>, where it makes the cell the prototype of \<^verbatim>\<open>idMap\<close>. Reading
  \<^verbatim>\<open>idMap[id]\<close> finds an own property, or else what the object inherits: from
  \<^verbatim>\<open>Object.prototype\<close> its members (all functions, hence truthy and no cells), or,
  once a cell is the prototype, what that cell has under the name (\<open>member\<close>). The
  result is \<open>None\<close> when the value read is falsy.
\<close>

record idMap =
  own :: "string \<rightharpoonup> handle"
  proto :: "handle option"

definition empty_idMap :: idMap where
  "empty_idMap = \<lparr>own = Map.empty, proto = None\<rparr>"

definition idMap_set :: "idMap \<Rightarrow> string \<Rightarrow> handle \<Rightarrow> idMap" where
  "idMap_set m k h =
     (if k = ''__proto__'' then m\<lparr>proto := Some h\<rparr> else m\<lparr>own := (own m)(k \<mapsto> h)\<rparr>)"

definition idMap_get :: "'n widget \<Rightarrow> 'n mxGraph \<Rightarrow> idMap \<Rightarrow> string \<Rightarrow> terminal option" where
  "idMap_get W g m k =
     (case own m k of
        Some h \<Rightarrow> Some (Cell h)
      | None \<Rightarrow>
          (case proto m of
             None \<Rightarrow> if inherited k then Some Foreign else None
           | Some c \<Rightarrow> if k = ''__proto__'' then Some (Cell c) else member W g c k))"

text \<open>\<^verbatim>\<open>insertVertex\<close> and \<^verbatim>\<open>insertEdge\<close> of the converter.\<close>

definition insertVertex ::
  "'n builtins \<Rightarrow> 'n widget \<Rightarrow> 'n mxGraph \<Rightarrow> 'n GraphCell \<Rightarrow> handle option
   \<Rightarrow> 'n mxGraph \<times> handle" where
  "insertVertex B W graph cellData parent =
     (let styleStr = formatStyle B (gc_style cellData) in
      graph_insertVertex W graph parent (gc_id cellData) (gc_value cellData)
        (geo_x (gc_geometry cellData)) (geo_y (gc_geometry cellData))
        (geo_width (gc_geometry cellData)) (geo_height (gc_geometry cellData)) styleStr)"

definition insertEdge ::
  "'n builtins \<Rightarrow> 'n widget \<Rightarrow> 'n mxGraph \<Rightarrow> 'n GraphCell \<Rightarrow> handle option
   \<Rightarrow> terminal \<Rightarrow> terminal \<Rightarrow> js_error + 'n mxGraph \<times> handle" where
  "insertEdge B W graph cellData parent src tgt =
     (let styleStr = formatStyle B (gc_style cellData) in
      graph_insertEdge B W graph parent (gc_id cellData) (gc_value cellData) src tgt styleStr)"

text \<open>The bodies of the two passes. The test \<^verbatim>\<open>cellData.source && cellData.target\<close>
  wants both fields present and non-empty. An exception ends the pass.\<close>

definition create_vertex ::
  "'n builtins \<Rightarrow> 'n widget \<Rightarrow> handle option \<Rightarrow> 'n GraphCell \<Rightarrow> 'n mxGraph \<times> idMap
   \<Rightarrow> 'n mxGraph \<times> idMap" where
  "create_vertex B W parent cellData st =
     (case st of (graph, idm) \<Rightarrow>
        if gc_type cellData = Vertex
        then (case insertVertex B W graph cellData parent of
                (graph', cell) \<Rightarrow> (graph', idMap_set idm (gc_id cellData) cell))
        else (graph, idm))"

definition create_edge ::
  "'n builtins \<Rightarrow> 'n widget \<Rightarrow> idMap \<Rightarrow> handle option \<Rightarrow> 'n GraphCell \<Rightarrow> 'n mxGraph
   \<Rightarrow> js_error + 'n mxGraph" where
  "create_edge B W idm parent cellData graph =
     (if gc_type cellData = Edge \<and> str_or_undefined (gc_source cellData) \<noteq> None
         \<and> str_or_undefined (gc_target cellData) \<noteq> None
      then (case (idMap_get W graph idm (str_or_empty (gc_source cellData)),
                  idMap_get W graph idm (str_or_empty (gc_target cellData))) of
              (Some src, Some tgt) \<Rightarrow>
                (case insertEdge B W graph cellData parent src tgt of
                   Inl err \<Rightarrow> Inl err
                 | Inr (graph', cell) \<Rightarrow> Inr graph')
            | _ \<Rightarrow> Inr graph)
      else Inr graph)"

fun create_edges ::
  "'n builtins \<Rightarrow> 'n widget \<Rightarrow> idMap \<Rightarrow> handle option \<Rightarrow> 'n GraphCell list \<Rightarrow> 'n mxGraph
   \<Rightarrow> js_error + 'n mxGraph" where
  "create_edges B W idm parent [] graph = Inr graph"
| "create_edges B W idm parent (cellData # rest) graph =
     (case create_edge B W idm parent cellData graph of
        Inl err \<Rightarrow> Inl err
      | Inr graph' \<Rightarrow> create_edges B W idm parent rest graph')"

text \<open>
  \<^verbatim>\<open>importGraphFromJSON\<close>. The calls \<^verbatim>\<open>beginUpdate\<close> and \<^verbatim>\<open>endUpdate\<close> bracket the
  changes for the observers of the model and change no cell. The result is the graph
  after the call, or the exception that the call ends with; what the graph holds after
  an exception is not described.
\<close>

definition importGraphFromJSON ::
  "'n builtins \<Rightarrow> 'n widget \<Rightarrow> 'n mxGraph \<Rightarrow> 'n GraphData \<Rightarrow> bool \<Rightarrow> js_error + 'n mxGraph" where
  "importGraphFromJSON B W graph gdata clearExisting =
     (let g1 = (if clearExisting
                then (case getRoot graph of
                        None \<Rightarrow> graph
                      | Some root \<Rightarrow> removeCells graph (children graph root))
                else graph);
          parent = getDefaultParent g1;
          (g2, idm) = fold (create_vertex B W parent) (gd_cells gdata) (g1, empty_idMap)
      in case create_edges B W idm parent (gd_cells gdata) g2 of
           Inl err \<Rightarrow> Inl err
         | Inr g3 \<Rightarrow>
             Inr (case gd_viewport gdata of
                    None \<Rightarrow> g3
                  | Some v \<Rightarrow> g3\<lparr>getScale := vp_scale v, getTranslate := vp_translate v\<rparr>))"

section \<open>Validation of a response of the AI service\<close>

text \<open>
  A response is any value (\<^verbatim>\<open>response: any\<close>); the values that JSON and the stub
  produce are modelled. Reading a property of \<^verbatim>\<open>null\<close> or \<^verbatim>\<open>undefined\<close> throws a
  \<^verbatim>\<open>TypeError\<close>; of an object it gives the own property of that name; of anything
  else, for the three names read here, \<^verbatim>\<open>undefined\<close>.
\<close>

datatype 'n json =
  JsUndefined | JsNull | JsBool bool | JsNum 'n | JsStr string
  | JsArr "'n json list" | JsObj "(string \<times> 'n json) list"

fun truthy :: "'n builtins \<Rightarrow> 'n json \<Rightarrow> bool" where
  "truthy B JsUndefined = False"
| "truthy B JsNull = False"
| "truthy B (JsBool b) = b"
| "truthy B (JsNum n) = (\<not> (n = js_zero B \<or> js_isNaN B n))"
| "truthy B (JsStr s) = (s \<noteq> [])"
| "truthy B (JsArr xs) = True"
| "truthy B (JsObj es) = True"

fun get_prop :: "'n json \<Rightarrow> string \<Rightarrow> js_error + 'n json" where
  "get_prop JsUndefined name = Inl TypeError"
| "get_prop JsNull name = Inl TypeError"
| "get_prop (JsObj es) name = Inr (case map_of es name of None \<Rightarrow> JsUndefined | Some v \<Rightarrow> v)"
| "get_prop v name = Inr JsUndefined"

fun isArray :: "'n json \<Rightarrow> bool" where
  "isArray (JsArr xs) = True"
| "isArray v = False"

fun is_string :: "'n json \<Rightarrow> bool" where
  "is_string (JsStr s) = True"
| "is_string v = False"

text \<open>\<^verbatim>\<open>validateAIResponse\<close>: a chain of \<^verbatim>\<open>&&\<close>, which yields its first falsy operand,
  or else its last operand.\<close>

definition validateAIResponse :: "'n builtins \<Rightarrow> 'n json \<Rightarrow> js_error + 'n json" where
  "validateAIResponse B response =
     (if \<not> truthy B response then Inr response
      else case get_prop response ''diagram'' of
        Inl e \<Rightarrow> Inl e
      | Inr diagram \<Rightarrow>
          if \<not> truthy B diagram then Inr diagram
          else case get_prop diagram ''cells'' of
            Inl e \<Rightarrow> Inl e
          | Inr cells \<Rightarrow>
              if \<not> isArray cells then Inr (JsBool False)
              else case get_prop response ''description'' of
                Inl e \<Rightarrow> Inl e
              | Inr description \<Rightarrow> Inr (JsBool (is_string description)))"

section \<open>An instance of the built-ins for closed examples\<close>

text \<open>
  The examples below are evaluated with an instance of the built-ins that covers the
  integers written in plain decimal, which is where \<^verbatim>\<open>Number\<close> and \<^verbatim>\<open>String\<close> need
  no floating-point arithmetic: \<^verbatim>\<open>Number\<close> trims its argument, reads the empty string
  as 0 and an optionally signed run of decimal digits as that integer, and \<^verbatim>\<open>String\<close>
  prints an integer in decimal. Fractions, exponents, radix prefixes and
  \<^verbatim>\<open>Infinity\<close> are outside this instance (it reads them as NaN), and no example uses
  them. The theorems themselves are stated for arbitrary built-ins.
\<close>

datatype jsnum = NaN | Finite int

definition read_digits :: "string \<Rightarrow> jsnum" where
  "read_digits ds =
     (if ds \<noteq> [] \<and> list_all is_digit ds then Finite (decimal_val ds) else NaN)"

definition negate :: "jsnum \<Rightarrow> jsnum" where
  "negate n = (case n of NaN \<Rightarrow> NaN | Finite i \<Rightarrow> Finite (- i))"

definition int_Number :: "string \<Rightarrow> jsnum" where
  "int_Number s =
     (case trim s of
        [] \<Rightarrow> Finite 0
      | c # ds \<Rightarrow>
          if c = CHR ''-'' then negate (read_digits ds)
          else if c = CHR ''+'' then read_digits ds
          else read_digits (c # ds))"

definition digit_char :: "int \<Rightarrow> char" where
  "digit_char d = ''0123456789'' ! nat d"

function show_nat :: "int \<Rightarrow> string" where
  "show_nat n =
     (if n < 10 then [digit_char n]
      else show_nat (n div 10) @ [digit_char (n mod 10)])"
  by pat_completeness auto
termination
  by (relation "measure nat") auto

declare show_nat.simps [simp del]

definition int_String :: "jsnum \<Rightarrow> string" where
  "int_String n =
     (case n of
        NaN \<Rightarrow> ''NaN''
      | Finite i \<Rightarrow> if i < 0 then CHR ''-'' # show_nat (- i) else show_nat i)"

definition int_builtins :: "jsnum builtins" where
  "int_builtins =
     \<lparr>js_Number = int_Number, js_isNaN = (\<lambda>n. n = NaN), js_String = int_String,
      js_zero = Finite 0\<rparr>"

section \<open>Cells, documents and models for closed examples\<close>

text \<open>A vertex without a geometry record, a vertex whose geometry has a NaN and a zero,
  elements of a document, and a model as the widget sets it up: a root with one layer,
  which is the default parent.\<close>

definition bare_vertex :: "jsnum mxCell" where
  "bare_vertex = \<lparr>getId = Some ''v'', getValue = None, getGeometry = None, getStyle = None,
     isEdge = False, isVertex = True, getParent = None, getSource = None, getTarget = None\<rparr>"

definition nan_vertex :: "jsnum mxCell" where
  "nan_vertex = \<lparr>getId = Some ''w'', getValue = Some ''W'',
     getGeometry = Some \<lparr>geo_x = Finite 20, geo_y = NaN, geo_width = Finite 0, geo_height = Finite 60\<rparr>,
     getStyle = Some ''rounded=1'',
     isEdge = False, isVertex = True, getParent = None, getSource = None, getTarget = None\<rparr>"

definition empty_graph :: "jsnum mxGraph" where
  "empty_graph = \<lparr>store = [], getRoot = None, defaultParent = None,
     getScale = Finite 1, getTranslate = (Finite 0, Finite 0)\<rparr>"

definition vertex_el :: "string \<Rightarrow> string \<Rightarrow> int \<Rightarrow> jsnum CellStyle \<Rightarrow> jsnum GraphCell" where
  "vertex_el i v px st = \<lparr>gc_id = i, gc_type = Vertex, gc_value = v,
     gc_geometry = \<lparr>geo_x = Finite px, geo_y = Finite 0, geo_width = Finite 100, geo_height = Finite 40\<rparr>,
     gc_style = st, gc_source = None, gc_target = None, gc_parent = None\<rparr>"

definition edge_el :: "string \<Rightarrow> string option \<Rightarrow> string option \<Rightarrow> jsnum GraphCell" where
  "edge_el i s t = \<lparr>gc_id = i, gc_type = Edge, gc_value = [],
     gc_geometry = \<lparr>geo_x = Finite 0, geo_y = Finite 0, geo_width = Finite 0, geo_height = Finite 0\<rparr>,
     gc_style = [], gc_source = s, gc_target = t, gc_parent = None\<rparr>"

definition layer_cell :: "string \<Rightarrow> handle option \<Rightarrow> jsnum mxCell" where
  "layer_cell i p = \<lparr>getId = Some i, getValue = None, getGeometry = None, getStyle = None,
     isEdge = False, isVertex = False, getParent = p, getSource = None, getTarget = None\<rparr>"

definition fresh_graph :: "jsnum mxGraph" where
  "fresh_graph = \<lparr>store = [layer_cell ''0'' None, layer_cell ''1'' (Some 0)],
     getRoot = Some 0, defaultParent = None,
     getScale = Finite 1, getTranslate = (Finite 0, Finite 0)\<rparr>"

text \<open>
  An instance of the parameters of the widget for the examples. The new id of a cell
  is the first decimal numeral that is free, which is what the counter gives in the
  examples. Of the members of a cell the instance has the three that hold cells: its
  parent and its two ends. The styles of the examples have no port entries, so an edge
  keeps its style; and in the one example with an edge whose ends are not both children
  of its parent, an end is that parent itself, where the widget leaves the edge in place.
\<close>

definition first_free :: "jsnum mxGraph \<Rightarrow> string" where
  "first_free g =
     (case filter (\<lambda>n. \<not> taken g (show_nat n)) [0..int (length (store g))] of
        [] \<Rightarrow> [] | n # ns \<Rightarrow> show_nat n)"

definition cell_members :: "jsnum mxGraph \<Rightarrow> handle \<Rightarrow> string \<Rightarrow> terminal option" where
  "cell_members g c k =
     (case at_index (store g) c of
        None \<Rightarrow> None
      | Some cell \<Rightarrow>
          if k = ''parent'' then map_option Cell (getParent cell)
          else if k = ''source'' then getSource cell
          else if k = ''target'' then getTarget cell
          else None)"

definition example_widget :: "jsnum widget" where
  "example_widget =
     \<lparr>createId = first_free, member = cell_members, connectedStyle = (\<lambda>s. s),
      movedParent = (\<lambda>g p s t. p)\<rparr>"

section \<open>Notions for the properties of the style codec\<close>

text \<open>\<open>stored_by B part k w\<close>: the segment \<open>part\<close> passes the guard of \<^verbatim>\<open>parseStyle\<close>
  and has the entry \<open>(k, w)\<close> assigned.\<close>

definition stored_by :: "'n builtins \<Rightarrow> string \<Rightarrow> string \<Rightarrow> 'n jsval \<Rightarrow> bool" where
  "stored_by B part k w =
     (\<exists>key val. at_index (split_on CHR ''='' part) 0 = Some key \<and>
        at_index (split_on CHR ''='' part) 1 = Some val \<and>
        key \<noteq> [] \<and> val \<noteq> [] \<and> k = trim key \<and> w = parseStyleValue B (trim val))"

text \<open>A text without the two separators of the format.\<close>

definition sep_free :: "string \<Rightarrow> bool" where
  "sep_free t = (CHR '';'' \<notin> set t \<and> CHR ''='' \<notin> set t)"

text \<open>
  The order of the entries of a plain object: a key may precede another unless the
  other is an array index and the key is not, or is a greater one. A mapping is well
  kept when it has each key once, in that order, and no key \<^verbatim>\<open>__proto__\<close>.
\<close>

definition may_precede :: "string \<Rightarrow> string \<Rightarrow> bool" where
  "may_precede k k' =
     (if is_array_index k' then is_array_index k \<and> decimal_val k \<le> decimal_val k' else True)"

fun ordered_keys :: "string list \<Rightarrow> bool" where
  "ordered_keys [] = True"
| "ordered_keys (k # ks) = (list_all (may_precede k) ks \<and> ordered_keys ks)"

definition well_kept :: "(string \<times> 'v) list \<Rightarrow> bool" where
  "well_kept es =
     (distinct (map fst es) \<and> ordered_keys (map fst es) \<and> ''__proto__'' \<notin> set (map fst es))"

text \<open>
  A value reads back when formatting and parsing return it: the text \<^verbatim>\<open>String\<close>
  gives for a number is not empty, has no separator and no white space around it, and
  \<^verbatim>\<open>parseStyleValue\<close> turns it into the same number; a string is not empty. An entry
  is in order (\<open>entry_ok\<close>) when its key is not empty, free of separators and
  trimmed, and its value reads back from such a text. \<open>segment_of\<close> is the segment
  \<^verbatim>\<open>formatStyle\<close> writes for an entry.
\<close>

definition reads_back :: "'n builtins \<Rightarrow> 'n jsval \<Rightarrow> bool" where
  "reads_back B w =
     (case w of
        JNum n \<Rightarrow>
          (let t = js_String B n in
           t \<noteq> [] \<and> CHR '';'' \<notin> set t \<and> CHR ''='' \<notin> set t \<and> trim t = t \<and>
           parseStyleValue B t = JNum n)
      | JStr t \<Rightarrow> t \<noteq> []
      | _ \<Rightarrow> True)"

definition segment_of :: "'n builtins \<Rightarrow> string \<times> 'n jsval \<Rightarrow> string" where
  "segment_of B e = fst e @ ''='' @ string_of_val B (snd e)"

definition entry_ok :: "'n builtins \<Rightarrow> string \<times> 'n jsval \<Rightarrow> bool" where
  "entry_ok B e =
     (fst e \<noteq> [] \<and> sep_free (fst e) \<and> trim (fst e) = fst e \<and>
      string_of_val B (snd e) \<noteq> [] \<and> sep_free (string_of_val B (snd e)) \<and>
      trim (string_of_val B (snd e)) = string_of_val B (snd e) \<and>
      parseStyleValue B (string_of_val B (snd e)) = snd e)"

text \<open>A mapping with plain keys: each key once, no key with a separator or with white
  space around it, and no value whose text holds a semicolon.\<close>

definition plain_keys :: "'n builtins \<Rightarrow> 'n CellStyle \<Rightarrow> bool" where
  "plain_keys B m =
     (distinct (map fst m) \<and>
      list_all (\<lambda>e. sep_free (fst e) \<and> trim (fst e) = fst e \<and>
                  CHR '';'' \<notin> set (string_of_val B (snd e))) m)"

section \<open>Notions for the properties of the formatter\<close>

text \<open>
  The formatted string as claim C4 words it, written without the functions of the
  embedding: \<open>spec_text\<close> is the string form of a value, \<open>spec_formatStyle\<close> takes the
  entries in the order given, leaves out those whose value is \<^verbatim>\<open>undefined\<close> or
  \<^verbatim>\<open>null\<close>, writes a segment \<open>key=value\<close> for each of the others and puts a
  semicolon between consecutive segments. \<open>built_from\<close> is the mapping that results
  from assigning the given entries, in order, to an empty object.
\<close>

definition spec_text :: "'n builtins \<Rightarrow> 'n jsval \<Rightarrow> string" where
  "spec_text B v =
     (case v of
        JBool b \<Rightarrow> (if b then ''true'' else ''false'')
      | JNum n \<Rightarrow> js_String B n
      | JStr s \<Rightarrow> s
      | _ \<Rightarrow> [])"

definition spec_formatStyle :: "'n builtins \<Rightarrow> (string \<times> 'n jsval) list \<Rightarrow> string" where
  "spec_formatStyle B entries =
     (case map (\<lambda>e. fst e @ [CHR ''=''] @ spec_text B (snd e))
             (filter (\<lambda>e. snd e \<noteq> JUndefined \<and> snd e \<noteq> JNull) entries) of
        [] \<Rightarrow> []
      | seg # segs \<Rightarrow> seg @ concat (map (\<lambda>p. CHR '';'' # p) segs))"

definition built_from :: "(string \<times> 'n jsval) list \<Rightarrow> 'n CellStyle" where
  "built_from kvs = fold (\<lambda>e m. obj_set m (fst e) (snd e)) kvs []"

section \<open>Notions for the properties of the import\<close>

text \<open>
  \<open>vertex_ids\<close>: the ids of the vertex elements of a list of elements.
  \<open>made_from B g p base v h\<close>: the cell at handle \<open>h\<close> of \<open>g\<close>, created at or after
  position \<open>base\<close> of the store, is the vertex made from the element \<open>v\<close> (its label,
  geometry and formatted style), a child of \<open>p\<close>. \<open>idMap_from\<close>: what \<^verbatim>\<open>idMap\<close>
  holds under an id is a vertex made from a vertex element with that id.
  \<open>resolves\<close>: the id has an entry. \<open>grows\<close>: the second graph has the cells of the
  first, unchanged, and maybe more. \<open>holds_only\<close>: \<^verbatim>\<open>idMap\<close> has entries for ids of
  a given set only.
\<close>

definition vertex_ids :: "'n GraphCell list \<Rightarrow> string set" where
  "vertex_ids es = set (map gc_id (filter (\<lambda>v. gc_type v = Vertex) es))"

definition made_from ::
  "'n builtins \<Rightarrow> 'n mxGraph \<Rightarrow> handle \<Rightarrow> nat \<Rightarrow> 'n GraphCell \<Rightarrow> handle \<Rightarrow> bool" where
  "made_from B g p base v h =
     (base \<le> h \<and> h < length (store g) \<and> isVertex (store g ! h) \<and> \<not> isEdge (store g ! h) \<and>
      getValue (store g ! h) = Some (gc_value v) \<and>
      getGeometry (store g ! h) = Some (gc_geometry v) \<and>
      getStyle (store g ! h) = Some (formatStyle B (gc_style v)) \<and>
      getParent (store g ! h) = Some p)"

definition idMap_from ::
  "'n builtins \<Rightarrow> 'n mxGraph \<Rightarrow> handle \<Rightarrow> nat \<Rightarrow> 'n GraphCell set \<Rightarrow> idMap \<Rightarrow> bool" where
  "idMap_from B g p base S idm =
     (own idm ''__proto__'' = None \<and>
      (\<forall>k h. own idm k = Some h \<longrightarrow>
         (\<exists>v \<in> S. gc_type v = Vertex \<and> gc_id v = k \<and> made_from B g p base v h)) \<and>
      (\<forall>h. proto idm = Some h \<longrightarrow>
         (\<exists>v \<in> S. gc_type v = Vertex \<and> gc_id v = ''__proto__'' \<and> made_from B g p base v h)))"

definition resolves :: "idMap \<Rightarrow> string \<Rightarrow> bool" where
  "resolves idm k = (if k = ''__proto__'' then proto idm \<noteq> None else own idm k \<noteq> None)"

definition grows :: "'n mxGraph \<Rightarrow> 'n mxGraph \<Rightarrow> bool" where
  "grows g g' = (\<exists>xs. store g' = store g @ xs)"

definition holds_only :: "idMap \<Rightarrow> string set \<Rightarrow> bool" where
  "holds_only idm S =
     ((\<forall>k h. own idm k = Some h \<longrightarrow> k \<in> S) \<and> (\<forall>h. proto idm = Some h \<longrightarrow> ''__proto__'' \<in> S))"

text \<open>The stages of the import, named: the graph after the optional clearing, the
  graph and \<^verbatim>\<open>idMap\<close> after the first pass, and the viewport applied at the end.\<close>

definition cleared :: "'n mxGraph \<Rightarrow> bool \<Rightarrow> 'n mxGraph" where
  "cleared graph clearExisting =
     (if clearExisting
      then (case getRoot graph of
              None \<Rightarrow> graph
            | Some root \<Rightarrow> removeCells graph (children graph root))
      else graph)"

definition after_vertices ::
  "'n builtins \<Rightarrow> 'n widget \<Rightarrow> 'n mxGraph \<Rightarrow> 'n GraphCell list \<Rightarrow> bool \<Rightarrow> 'n mxGraph \<times> idMap" where
  "after_vertices B W graph es clearExisting =
     fold (create_vertex B W (getDefaultParent (cleared graph clearExisting))) es
       (cleared graph clearExisting, empty_idMap)"

definition with_viewport :: "'n GraphData \<Rightarrow> 'n mxGraph \<Rightarrow> 'n mxGraph" where
  "with_viewport gdata g =
     (case gd_viewport gdata of
        None \<Rightarrow> g
      | Some v \<Rightarrow> g\<lparr>getScale := vp_scale v, getTranslate := vp_translate v\<rparr>)"

text \<open>
  \<open>dangling es x\<close>: an end of an edge element that is absent or empty, or an id that
  no vertex element has and that a plain object does not inherit, in a document
  without a vertex element of id \<^verbatim>\<open>__proto__\<close>. \<open>plain_ends es\<close>: no vertex element
  has the id \<^verbatim>\<open>__proto__\<close>, and every end of an edge element that passes the test of
  the second pass is the id of a vertex element or a name that a plain object does not
  inherit.
\<close>

definition dangling :: "'n GraphCell list \<Rightarrow> string option \<Rightarrow> bool" where
  "dangling es x =
     (case str_or_undefined x of
        None \<Rightarrow> True
      | Some k \<Rightarrow> k \<notin> vertex_ids es \<and> ''__proto__'' \<notin> vertex_ids es \<and> \<not> inherited k)"

definition end_plain :: "'n GraphCell list \<Rightarrow> string option \<Rightarrow> bool" where
  "end_plain es x = (str_or_empty x \<in> vertex_ids es \<or> \<not> inherited (str_or_empty x))"

definition plain_ends :: "'n GraphCell list \<Rightarrow> bool" where
  "plain_ends es =
     (''__proto__'' \<notin> vertex_ids es \<and>
      list_all (\<lambda>e. if gc_type e = Edge \<and> str_or_undefined (gc_source e) \<noteq> None \<and>
                       str_or_undefined (gc_target e) \<noteq> None
                    then end_plain es (gc_source e) \<and> end_plain es (gc_target e)
                    else True) es)"

text \<open>Documents for the examples of the import.\<close>

definition edge_first_doc :: "jsnum GraphData" where
  "edge_first_doc =
     \<lparr>gd_cells = [edge_el ''e1'' (Some ''a'') (Some ''b''),
                  vertex_el ''a'' ''Start'' 0 [(''fillColor'', JStr ''#fff'')],
                  vertex_el ''b'' ''End'' 200 []],
      gd_viewport = None\<rparr>"

definition edge_last_doc :: "jsnum GraphData" where
  "edge_last_doc =
     \<lparr>gd_cells = [vertex_el ''b'' ''End'' 200 [],
                  vertex_el ''a'' ''Start'' 0 [(''fillColor'', JStr ''#fff'')],
                  edge_el ''e1'' (Some ''a'') (Some ''b'')],
      gd_viewport = None\<rparr>"

definition empty_id_doc :: "jsnum GraphData" where
  "empty_id_doc =
     \<lparr>gd_cells = [edge_el ''e1'' (Some []) (Some []), vertex_el [] ''V'' 0 []],
      gd_viewport = None\<rparr>"

definition twin_doc :: "string \<Rightarrow> string \<Rightarrow> jsnum GraphData" where
  "twin_doc l1 l2 =
     \<lparr>gd_cells = [edge_el ''e1'' (Some ''a'') (Some ''b''),
                  vertex_el ''a'' l1 0 [], vertex_el ''a'' l2 0 [],
                  vertex_el ''b'' ''End'' 200 []],
      gd_viewport = None\<rparr>"

definition inherited_doc :: "jsnum GraphData" where
  "inherited_doc =
     \<lparr>gd_cells = [edge_el ''e1'' (Some ''constructor'') (Some ''toString'')],
      gd_viewport = None\<rparr>"

definition empty_doc :: "jsnum GraphData" where
  "empty_doc = \<lparr>gd_cells = [], gd_viewport = None\<rparr>"

definition parent_doc :: "jsnum GraphData" where
  "parent_doc = \<lparr>gd_cells = [vertex_el ''parent'' ''Old'' 0 []], gd_viewport = None\<rparr>"

definition proto_doc :: "jsnum GraphData" where
  "proto_doc =
     \<lparr>gd_cells = [vertex_el ''__proto__'' ''X'' 0 [], vertex_el ''b'' ''End'' 200 [],
                  edge_el ''e1'' (Some ''parent'') (Some ''b'')],
      gd_viewport = None\<rparr>"

definition existing_doc :: "jsnum GraphData" where
  "existing_doc =
     \<lparr>gd_cells = [vertex_el ''b'' ''End'' 200 [], edge_el ''e1'' (Some ''parent'') (Some ''b'')],
      gd_viewport = None\<rparr>"

definition vertex_only_doc :: "jsnum GraphData" where
  "vertex_only_doc = \<lparr>gd_cells = [vertex_el ''b'' ''End'' 200 []], gd_viewport = None\<rparr>"

definition first_doc :: "jsnum GraphData" where
  "first_doc =
     \<lparr>gd_cells = [vertex_el ''toString'' ''T'' 0 [], vertex_el ''p'' ''P'' 200 []],
      gd_viewport = None\<rparr>"

text \<open>The graph that the import of a vertex of id \<^verbatim>\<open>parent\<close> into a new graph leaves.\<close>

definition live_graph :: "jsnum mxGraph" where
  "live_graph =
     (case importGraphFromJSON int_builtins example_widget fresh_graph parent_doc False of
        Inl err \<Rightarrow> fresh_graph
      | Inr g \<Rightarrow> g)"

text \<open>
  What an import made, for the examples: of each cell of the resulting graph its id,
  its label and the handle of its parent (\<open>cells_made\<close>) or the last two alone
  (\<open>shape_made\<close>), and of each edge its id and the labels of the cells at its
  two ends (\<open>edges_made\<close>) or its two ends as they are (\<open>edge_ends\<close>).
\<close>

definition end_label :: "'n mxGraph \<Rightarrow> terminal option \<Rightarrow> string option" where
  "end_label g x =
     (case x of
        Some (Cell h) \<Rightarrow> (case at_index (store g) h of None \<Rightarrow> None | Some c \<Rightarrow> getValue c)
      | _ \<Rightarrow> None)"

definition cells_made ::
  "js_error + 'n mxGraph \<Rightarrow> js_error + (string option \<times> string option \<times> handle option) list" where
  "cells_made r =
     (case r of
        Inl err \<Rightarrow> Inl err
      | Inr g \<Rightarrow> Inr (map (\<lambda>c. (getId c, getValue c, getParent c)) (store g)))"

definition edges_made ::
  "js_error + 'n mxGraph \<Rightarrow> js_error + (string option \<times> string option \<times> string option) list" where
  "edges_made r =
     (case r of
        Inl err \<Rightarrow> Inl err
      | Inr g \<Rightarrow>
          Inr (map (\<lambda>c. (getId c, end_label g (getSource c), end_label g (getTarget c)))
                 (filter isEdge (store g))))"

definition shape_made ::
  "js_error + 'n mxGraph \<Rightarrow> js_error + (string option \<times> handle option) list" where
  "shape_made r =
     (case r of
        Inl err \<Rightarrow> Inl err
      | Inr g \<Rightarrow> Inr (map (\<lambda>c. (getValue c, getParent c)) (store g)))"

definition edge_ends ::
  "js_error + 'n mxGraph \<Rightarrow> js_error + (string option \<times> terminal option \<times> terminal option) list" where
  "edge_ends r =
     (case r of
        Inl err \<Rightarrow> Inl err
      | Inr g \<Rightarrow> Inr (map (\<lambda>c. (getId c, getSource c, getTarget c)) (filter isEdge (store g))))"

section \<open>Properties of the style codec\<close>

subsection \<open>Entries of a mapping after an assignment\<close>

lemma set_update_entry: "set (update_entry k v es) \<subseteq> insert (k, v) (set es)"
  by (induction es) (auto split: if_splits)

lemma set_insert_entry: "set (insert_entry k v es) = insert (k, v) (set es)"
  by (induction es) (auto split: if_splits)

lemma set_obj_set: "set (obj_set style k v) \<subseteq> insert (k, v) (set style)"
  using set_update_entry [of k v style]
  by (auto simp: obj_set_def set_insert_entry)

subsection \<open>What parseStyle stores\<close>

lemma parse_part_entries:
  "(k, w) \<in> set (parse_part B part style) \<Longrightarrow>
     (k, w) \<in> set style \<or> stored_by B part k w"
  using set_obj_set
  by (fastforce simp: parse_part_def Let_def stored_by_def
      split: option.splits if_splits)

lemma fold_parse_part_entries:
  "(k, w) \<in> set (fold (parse_part B) parts style) \<Longrightarrow>
     (k, w) \<in> set style \<or> (\<exists>part \<in> set parts. stored_by B part k w)"
proof (induction parts arbitrary: style)
  case Nil
  then show ?case by simp
next
  case (Cons p ps)
  from Cons.IH [of "parse_part B p style"] Cons.prems
  have "(k, w) \<in> set (parse_part B p style) \<or> (\<exists>part \<in> set ps. stored_by B part k w)"
    by simp
  with parse_part_entries [of k w B p style] show ?case
    by auto
qed

lemma parseStyle_entries:
  "(k, w) \<in> set (parseStyle B s) \<Longrightarrow>
     \<exists>part \<in> set (split_on CHR '';'' s). stored_by B part k w"
  using fold_parse_part_entries [of k w B "split_on CHR '';'' s" "[]"]
  by (auto simp: parseStyle_def split: if_splits)

subsection \<open>Coercion of values\<close>






subsection \<open>The segments that formatStyle writes\<close>

lemma fold_format_entry:
  "fold (format_entry B) style acc =
     acc @ map (\<lambda>(k, v). k @ ''='' @ string_of_val B v)
             (filter (\<lambda>(k, v). v \<noteq> JUndefined \<and> v \<noteq> JNull) style)"
  by (induction style arbitrary: acc) (auto simp: format_entry_def)

subsection \<open>Splitting, joining and trimming\<close>

lemma split_on_not_Nil: "split_on c s \<noteq> []"
  by (induction s) (auto split: list.splits)

lemma split_on_no_sep: "c \<notin> set p \<Longrightarrow> split_on c p = [p]"
  by (induction p) auto

lemma split_on_append:
  "c \<notin> set p \<Longrightarrow> split_on c (p @ c # rest) = p # split_on c rest"
  by (induction p) auto

lemma split_on_join:
  "ps \<noteq> [] \<Longrightarrow> \<forall>p \<in> set ps. c \<notin> set p \<Longrightarrow> split_on c (join_with [c] ps) = ps"
proof (induction "[c]" ps rule: join_with.induct)
  case 1
  then show ?case by simp
next
  case (2 p)
  then show ?case by (simp add: split_on_no_sep)
next
  case (3 p q ps)
  then show ?case by (simp add: split_on_append)
qed

lemma split_on_pieces: "p \<in> set (split_on c s) \<Longrightarrow> c \<notin> set p \<and> set p \<subseteq> set s"
proof (induction s arbitrary: p)
  case Nil
  then show ?case by simp
next
  case (Cons x xs)
  obtain q qs where q: "split_on c xs = q # qs"
    using split_on_not_Nil [of c xs] by (cases "split_on c xs") auto
  show ?case
  proof (cases "x = c")
    case True
    with Cons show ?thesis by auto
  next
    case False
    with Cons.prems q have "p = x # q \<or> p \<in> set qs" by auto
    with Cons.IH [of q] Cons.IH [of p] q False show ?thesis by auto
  qed
qed

lemma set_trim: "set (trim s) \<subseteq> set s"
proof
  fix x assume "x \<in> set (trim s)"
  then have "x \<in> set (dropWhile is_ws (rev (dropWhile is_ws s)))"
    by (simp add: trim_def)
  then have "x \<in> set (rev (dropWhile is_ws s))"
    by (rule set_dropWhileD)
  then show "x \<in> set s"
    using set_dropWhileD [of x is_ws s] by simp
qed

lemma last_dropWhile_keep:
  "dropWhile P xs \<noteq> [] \<Longrightarrow> last (dropWhile P xs) = last xs"
  by (induction xs) (auto split: if_splits)

lemma trim_ends:
  "trim s \<noteq> [] \<Longrightarrow> \<not> is_ws (hd (trim s)) \<and> \<not> is_ws (last (trim s))"
proof -
  assume ne: "trim s \<noteq> []"
  let ?d = "dropWhile is_ws s"
  let ?e = "dropWhile is_ws (rev ?d)"
  from ne have e: "?e \<noteq> []" by (simp add: trim_def)
  have d: "?d \<noteq> []"
  proof
    assume a: "?d = []"
    have "?e = []" unfolding a by simp
    with e show False by blast
  qed
  have hd_d: "\<not> is_ws (hd ?d)" using d hd_dropWhile by blast
  have hd_e: "\<not> is_ws (hd ?e)" using e hd_dropWhile by blast
  have "last ?e = last (rev ?d)" using e by (rule last_dropWhile_keep)
  also have "\<dots> = hd ?d" using d by (simp add: last_rev)
  finally have "hd (rev ?e) = hd ?d" using e by (simp add: hd_rev)
  moreover have "last (rev ?e) = hd ?e" using e by (simp add: last_rev)
  ultimately show ?thesis using hd_d hd_e by (simp add: trim_def)
qed

lemma trim_id:
  "s = [] \<or> (\<not> is_ws (hd s) \<and> \<not> is_ws (last s)) \<Longrightarrow> trim s = s"
proof (cases s)
  case Nil
  then show ?thesis by (simp add: trim_def)
next
  case (Cons x xs)
  assume "s = [] \<or> (\<not> is_ws (hd s) \<and> \<not> is_ws (last s))"
  with Cons have a: "\<not> is_ws x" and b: "\<not> is_ws (last s)" by auto
  from a Cons have d: "dropWhile is_ws s = s" by simp
  have "rev s \<noteq> []" using Cons by simp
  then have "hd (rev s) = last s" by (simp add: hd_rev)
  with b have "dropWhile is_ws (rev s) = rev s"
    using Cons by (cases "rev s") auto
  with d show ?thesis by (simp add: trim_def)
qed

lemma trim_trim: "trim (trim s) = trim s"
  using trim_ends [of s] by (intro trim_id) blast

subsection \<open>The order of the entries\<close>

lemma map_fst_update_entry: "map fst (update_entry k v es) = map fst es"
  by (induction es) auto

lemma keys_insert_entry: "set (map fst (insert_entry k v es)) = insert k (set (map fst es))"
  by (simp add: set_insert_entry)

lemma may_precede_trans:
  "may_precede a b \<Longrightarrow> may_precede b c \<Longrightarrow> may_precede a c"
  by (auto simp: may_precede_def split: if_splits)

lemma ordered_insert_entry:
  "ordered_keys (map fst es) \<Longrightarrow> ordered_keys (map fst (insert_entry k v es))"
proof (induction es)
  case Nil
  then show ?case by simp
next
  case (Cons e es)
  obtain k' v' where e: "e = (k', v')" by (cases e)
  show ?case
  proof (cases "goes_before k k'")
    case True
    then have kk': "may_precede k k'" by (auto simp: may_precede_def goes_before_def)
    from Cons.prems e have "list_all (may_precede k') (map fst es)" by simp
    then have "list_all (may_precede k) (map fst es)"
      using kk' may_precede_trans [of k k'] by (auto simp: list_all_iff)
    with True kk' Cons.prems e show ?thesis by simp
  next
    case False
    then have "may_precede k' k" by (auto simp: may_precede_def goes_before_def)
    moreover note keys_insert_entry [of k v es]
    moreover from Cons.prems e have "\<forall>a \<in> set (map fst es). may_precede k' a"
      by (simp add: list_all_iff)
    ultimately have "\<forall>a \<in> set (map fst (insert_entry k v es)). may_precede k' a"
      by (simp del: set_map)
    then have "list_all (may_precede k') (map fst (insert_entry k v es))"
      by (simp only: list_all_iff)
    moreover from Cons e have "ordered_keys (map fst (insert_entry k v es))" by simp
    ultimately show ?thesis using False e by simp
  qed
qed

lemma insert_entry_last:
  "ordered_keys (map fst es @ [k]) \<Longrightarrow> insert_entry k v es = es @ [(k, v)]"
proof (induction es)
  case Nil
  then show ?case by simp
next
  case (Cons e es)
  obtain k' v' where e: "e = (k', v')" by (cases e)
  from Cons.prems e have "may_precede k' k" and "ordered_keys (map fst es @ [k])" by auto
  then show ?case using Cons.IH e by (auto simp: may_precede_def goes_before_def split: if_splits)
qed

lemma ordered_keys_prefix: "ordered_keys (ks @ ks') \<Longrightarrow> ordered_keys ks"
  by (induction ks) auto

lemma obj_set_keys_distinct:
  "distinct (map fst style) \<Longrightarrow> distinct (map fst (obj_set style k v))"
proof -
  assume d: "distinct (map fst style)"
  have "k \<notin> fst ` set style \<Longrightarrow> distinct (map fst (insert_entry k v style))"
    using d
  proof (induction style)
    case Nil
    then show ?case by simp
  next
    case (Cons e es)
    note keys_insert_entry [of k v es]
    with Cons show ?case by (cases e) auto
  qed
  with d show ?thesis by (simp add: obj_set_def map_fst_update_entry)
qed

lemma obj_set_ordered:
  "ordered_keys (map fst style) \<Longrightarrow> ordered_keys (map fst (obj_set style k v))"
  by (simp add: obj_set_def map_fst_update_entry ordered_insert_entry)

lemma obj_set_no_proto:
  "''__proto__'' \<notin> set (map fst style) \<Longrightarrow> ''__proto__'' \<notin> set (map fst (obj_set style k v))"
  using keys_insert_entry [of k v style]
  by (simp add: obj_set_def map_fst_update_entry del: set_map)

lemma well_kept_obj_set: "well_kept style \<Longrightarrow> well_kept (obj_set style k v)"
  unfolding well_kept_def
  using obj_set_keys_distinct obj_set_ordered obj_set_no_proto by blast

lemma parse_part_cases:
  "parse_part B part st = st \<or> (\<exists>k w. parse_part B part st = obj_set st k w)"
  by (auto simp: parse_part_def Let_def split: option.splits)

lemma well_kept_parse_part: "well_kept st \<Longrightarrow> well_kept (parse_part B part st)"
  using parse_part_cases [of B part st] well_kept_obj_set by metis

lemma well_kept_fold_parse_part:
  "well_kept st \<Longrightarrow> well_kept (fold (parse_part B) parts st)"
  by (induction parts arbitrary: st) (simp_all add: well_kept_parse_part)

lemma well_kept_parseStyle: "well_kept (parseStyle B s)"
  using well_kept_fold_parse_part [of "[]" B]
  by (simp add: parseStyle_def well_kept_def)

text \<open>Reinserting the entries of a well-kept mapping, in order, rebuilds it.\<close>

lemma obj_set_new_last:
  assumes "well_kept (es @ [(k, v)])"
  shows "obj_set es k v = es @ [(k, v)]"
proof -
  from assms have "k \<noteq> ''__proto__''" and "k \<notin> fst ` set es"
    and "ordered_keys (map fst es @ [k])"
    by (auto simp: well_kept_def)
  then show ?thesis by (simp add: obj_set_def insert_entry_last)
qed

lemma well_kept_prefix: "well_kept (es @ es') \<Longrightarrow> well_kept es"
  using ordered_keys_prefix [of "map fst es" "map fst es'"]
  by (auto simp: well_kept_def)

lemma fold_obj_set_rebuild:
  "well_kept es \<Longrightarrow> fold (\<lambda>e st. obj_set st (fst e) (snd e)) es [] = es"
proof (induction es rule: rev_induct)
  case Nil
  then show ?case by simp
next
  case (snoc e es)
  from snoc.prems have "well_kept es" by (rule well_kept_prefix)
  with snoc.IH have "fold (\<lambda>e st. obj_set st (fst e) (snd e)) es [] = es" by simp
  moreover from snoc.prems have "obj_set es (fst e) (snd e) = es @ [e]"
    using obj_set_new_last [of es "fst e" "snd e"] by simp
  ultimately show ?case by simp
qed

subsection \<open>Formatting\<close>

lemma join_with_concat:
  "join_with [c] ps = (case ps of [] \<Rightarrow> [] | p # qs \<Rightarrow> p @ concat (map (\<lambda>q. c # q) qs))"
  by (induction "[c]" ps rule: join_with.induct) simp_all

lemma string_of_val_spec:
  "v \<noteq> JUndefined \<Longrightarrow> v \<noteq> JNull \<Longrightarrow> string_of_val B v = spec_text B v"
  by (cases v) (simp_all add: spec_text_def)

lemma formatStyle_spec: "formatStyle B style = spec_formatStyle B style"
proof -
  have "map (\<lambda>(k, v). k @ ''='' @ string_of_val B v)
          (filter (\<lambda>(k, v). v \<noteq> JUndefined \<and> v \<noteq> JNull) style) =
        map (\<lambda>e. fst e @ [CHR ''=''] @ spec_text B (snd e))
          (filter (\<lambda>e. snd e \<noteq> JUndefined \<and> snd e \<noteq> JNull) style)"
    by (induction style) (auto simp: string_of_val_spec)
  then show ?thesis
    by (simp add: formatStyle_def fold_format_entry spec_formatStyle_def join_with_concat)
qed

lemma ordered_keys_plain: "list_all (\<lambda>k. \<not> is_array_index k) ks \<Longrightarrow> ordered_keys ks"
  by (induction ks) (auto simp: may_precede_def list_all_iff)

lemma well_kept_built_from_aux:
  "well_kept m \<Longrightarrow> well_kept (fold (\<lambda>e m. obj_set m (fst e) (snd e)) kvs m)"
  by (induction kvs arbitrary: m) (simp_all add: well_kept_obj_set)

lemma well_kept_built_from: "well_kept (built_from kvs)"
  using well_kept_built_from_aux [of "[]" kvs] by (simp add: built_from_def well_kept_def)

lemma built_from_insertion_order:
  assumes "distinct (map fst kvs)"
    and "list_all (\<lambda>k. \<not> is_array_index k \<and> k \<noteq> ''__proto__'') (map fst kvs)"
  shows "built_from kvs = kvs"
proof -
  from assms(2) have "list_all (\<lambda>k. \<not> is_array_index k) (map fst kvs)"
    and "''__proto__'' \<notin> set (map fst kvs)"
    by (auto simp: list_all_iff)
  with assms(1) have "well_kept kvs"
    using ordered_keys_plain by (simp add: well_kept_def)
  then show ?thesis unfolding built_from_def by (rule fold_obj_set_rebuild)
qed

text \<open>
  Claim C4, amended. The claim as stated fails for a mapping with a key that is an
  array index (a canonical decimal numeral): such keys are enumerated first, whenever
  they were inserted. What holds: for every style mapping, \<^verbatim>\<open>formatStyle\<close> emits one
  segment \<open>key=value\<close> for each entry whose value is neither \<^verbatim>\<open>undefined\<close> nor
  \<^verbatim>\<open>null\<close>, with the value in its string form, skips the other entries, and joins the
  segments with \<open>;\<close> in the order in which \<^verbatim>\<open>Object.entries\<close> enumerates the mapping.
  In that order every key that is an array index precedes every key that is none, the
  array indices ascending; and for a mapping built by assigning distinct keys, none an
  array index (and none \<^verbatim>\<open>__proto__\<close>, which an assignment does not create), it is
  the order of insertion.
\<close>

theorem formatStyle_segments:
  "formatStyle B style = spec_formatStyle B style \<and>
   ordered_keys (map fst (built_from kvs)) \<and>
   (distinct (map fst kvs) \<and>
    list_all (\<lambda>k. \<not> is_array_index k \<and> k \<noteq> ''__proto__'') (map fst kvs) \<longrightarrow>
      built_from kvs = kvs \<and> formatStyle B (built_from kvs) = spec_formatStyle B kvs)"
  using well_kept_built_from [of kvs] built_from_insertion_order [of kvs]
  by (simp add: formatStyle_spec well_kept_def)

lemma fs_format:
  "formatStyle int_builtins
     (built_from [(''b'', JNum (Finite 1)), (''a'', JUndefined), (''c'', JBool True),
                  (''d'', JStr ''#fff''), (''e'', JNull), (''f'', JBool False)]) =
   ''b=1;c=true;d=#fff;f=false''"
  by code_simp

lemma fs_keys:
  "distinct (map fst [(''b'', JNum (Finite 1)), (''a'', JUndefined), (''c'', JBool True),
                      (''d'', JStr ''#fff''), (''e'', JNull), (''f'', JBool False :: jsnum jsval)]) \<and>
   list_all (\<lambda>k. \<not> is_array_index k \<and> k \<noteq> ''__proto__'')
     (map fst [(''b'', JNum (Finite 1)), (''a'', JUndefined), (''c'', JBool True),
               (''d'', JStr ''#fff''), (''e'', JNull), (''f'', JBool False :: jsnum jsval)])"
  by code_simp

theorem formatStyle_segments_witness:
  "built_from [(''b'', JNum (Finite 1)), (''a'', JUndefined), (''c'', JBool True),
               (''d'', JStr ''#fff''), (''e'', JNull), (''f'', JBool False :: jsnum jsval)] =
     [(''b'', JNum (Finite 1)), (''a'', JUndefined), (''c'', JBool True),
      (''d'', JStr ''#fff''), (''e'', JNull), (''f'', JBool False)] \<and>
   formatStyle int_builtins
     (built_from [(''b'', JNum (Finite 1)), (''a'', JUndefined), (''c'', JBool True),
                  (''d'', JStr ''#fff''), (''e'', JNull), (''f'', JBool False)]) =
     ''b=1;c=true;d=#fff;f=false'' \<and>
   spec_formatStyle int_builtins
     [(''b'', JNum (Finite 1)), (''a'', JUndefined), (''c'', JBool True),
      (''d'', JStr ''#fff''), (''e'', JNull), (''f'', JBool False)] =
     ''b=1;c=true;d=#fff;f=false''"
  using formatStyle_segments [of int_builtins "[]"
      "[(''b'', JNum (Finite 1)), (''a'', JUndefined), (''c'', JBool True),
        (''d'', JStr ''#fff''), (''e'', JNull), (''f'', JBool False)]"]
    fs_keys fs_format
  by simp

text \<open>The key \<open>b\<close> inserted first and the key \<open>2\<close> second: the segment of \<open>2\<close> comes
  first.\<close>

theorem formatStyle_segments_counterexample:
  "obj_set (obj_set [] ''b'' (JNum (Finite 1))) ''2'' (JStr ''x'') =
     [(''2'', JStr ''x''), (''b'', JNum (Finite 1))] \<and>
   formatStyle int_builtins (obj_set (obj_set [] ''b'' (JNum (Finite 1))) ''2'' (JStr ''x'')) =
     ''2=x;b=1'' \<and>
   formatStyle int_builtins (obj_set (obj_set [] ''b'' (JNum (Finite 1))) ''2'' (JStr ''x'')) \<noteq>
     ''b=1;2=x''"
  by code_simp

subsection \<open>The shape of what parseStyle stores\<close>

text \<open>What passes the guard of parseStyle is trimmed and free of separators.\<close>

lemma at_index_mem: "at_index xs i = Some x \<Longrightarrow> x \<in> set xs"
  by (auto simp: at_index_def split: if_splits)

lemma stored_by_shape:
  assumes "stored_by B part k w" and "CHR '';'' \<notin> set part"
  shows "sep_free k \<and> trim k = k \<and>
         (\<exists>t. sep_free t \<and> trim t = t \<and> w = parseStyleValue B t)"
proof -
  from assms(1) obtain key val where
    key: "key \<in> set (split_on CHR ''='' part)" and
    val: "val \<in> set (split_on CHR ''='' part)" and
    k: "k = trim key" and w: "w = parseStyleValue B (trim val)"
    unfolding stored_by_def using at_index_mem by metis
  from key val assms(2) have "sep_free key" and "sep_free val"
    using split_on_pieces [of key "CHR ''=''" part] split_on_pieces [of val "CHR ''=''" part]
    by (auto simp: sep_free_def)
  then have "sep_free (trim key)" and "sep_free (trim val)"
    using set_trim [of key] set_trim [of val] by (auto simp: sep_free_def)
  with k w show ?thesis using trim_trim by blast
qed

lemma parseStyle_shape:
  assumes "(k, w) \<in> set (parseStyle B s)"
  shows "sep_free k \<and> trim k = k \<and>
         (\<exists>t. sep_free t \<and> trim t = t \<and> w = parseStyleValue B t)"
proof -
  from assms obtain part where "part \<in> set (split_on CHR '';'' s)" and "stored_by B part k w"
    using parseStyle_entries by blast
  then show ?thesis
    using stored_by_shape [of B part k w] split_on_pieces [of part "CHR '';''" s] by blast
qed

subsection \<open>Parsing what formatStyle wrote\<close>

lemma parseStyleValue_defined:
  "parseStyleValue B t \<noteq> JUndefined \<and> parseStyleValue B t \<noteq> JNull"
  by (simp add: parseStyleValue_def)

lemma entry_ok_defined: "entry_ok B e \<Longrightarrow> snd e \<noteq> JUndefined \<and> snd e \<noteq> JNull"
  using parseStyleValue_defined [of B "string_of_val B (snd e)"]
  by (auto simp: entry_ok_def)

lemma parts_of_ok:
  "\<forall>e \<in> set m. entry_ok B e \<Longrightarrow>
     fold (format_entry B) m acc = acc @ map (segment_of B) m"
proof (induction m arbitrary: acc)
  case Nil
  then show ?case by simp
next
  case (Cons e m)
  from Cons.prems have "snd e \<noteq> JUndefined \<and> snd e \<noteq> JNull"
    using entry_ok_defined [of B e] by simp
  then have "format_entry B e acc = acc @ [segment_of B e]"
    by (cases e) (simp add: format_entry_def segment_of_def)
  with Cons show ?case by simp
qed

lemma parse_part_segment:
  assumes "entry_ok B e"
  shows "parse_part B (segment_of B e) st = obj_set st (fst e) (snd e)"
proof -
  let ?k = "fst e" and ?t = "string_of_val B (snd e)"
  from assms have k: "CHR ''='' \<notin> set ?k" and t: "CHR ''='' \<notin> set ?t"
    by (auto simp: entry_ok_def sep_free_def)
  have "split_on CHR ''='' (?k @ CHR ''='' # ?t) = ?k # split_on CHR ''='' ?t"
    using k by (rule split_on_append)
  also have "\<dots> = [?k, ?t]" using t by (simp add: split_on_no_sep)
  finally have "split_on CHR ''='' (segment_of B e) = [?k, ?t]"
    by (simp add: segment_of_def)
  with assms show ?thesis
    by (simp add: parse_part_def at_index_def entry_ok_def)
qed

lemma fold_parse_segments:
  "\<forall>e \<in> set m. entry_ok B e \<Longrightarrow>
     fold (parse_part B) (map (segment_of B) m) st =
     fold (\<lambda>e st. obj_set st (fst e) (snd e)) m st"
  by (induction m arbitrary: st) (simp_all add: parse_part_segment)

lemma join_with_Nil: "join_with sep ps = [] \<Longrightarrow> p \<in> set ps \<Longrightarrow> p = []"
  by (induction sep ps rule: join_with.induct) auto

lemma segment_of_shape:
  "entry_ok B e \<Longrightarrow> segment_of B e \<noteq> [] \<and> CHR '';'' \<notin> set (segment_of B e)"
  by (auto simp: entry_ok_def segment_of_def sep_free_def)

lemma parse_format_id:
  assumes "well_kept m" and ok: "\<forall>e \<in> set m. entry_ok B e"
  shows "parseStyle B (formatStyle B m) = m"
proof (cases m)
  case Nil
  then show ?thesis by (simp add: formatStyle_def parseStyle_def)
next
  case (Cons e m')
  let ?segs = "map (segment_of B) m"
  have fmt: "formatStyle B m = join_with '';'' ?segs"
    using parts_of_ok [OF ok, of "[]"] by (simp add: formatStyle_def)
  have ne: "?segs \<noteq> []" using Cons by simp
  have nosep: "\<forall>p \<in> set ?segs. CHR '';'' \<notin> set p"
    using ok segment_of_shape by auto
  have "segment_of B e \<in> set ?segs" using Cons by simp
  moreover have "segment_of B e \<noteq> []" using ok Cons segment_of_shape [of B e] by simp
  ultimately have "join_with '';'' ?segs \<noteq> []"
    using join_with_Nil by blast
  moreover have "split_on CHR '';'' (join_with '';'' ?segs) = ?segs"
    using ne nosep by (rule split_on_join)
  ultimately have "parseStyle B (formatStyle B m) = fold (parse_part B) ?segs []"
    by (simp add: parseStyle_def fmt)
  also have "\<dots> = fold (\<lambda>e st. obj_set st (fst e) (snd e)) m []"
    using ok by (rule fold_parse_segments)
  also have "\<dots> = m" using assms(1) by (rule fold_obj_set_rebuild)
  finally show ?thesis .
qed

lemma trim_true: "trim ''true'' = ''true''"
  by (rule trim_id) (simp add: is_ws_def)

lemma trim_false: "trim ''false'' = ''false''"
  by (rule trim_id) (simp add: is_ws_def)

lemma parsed_entry_ok:
  assumes "(k, w) \<in> set (parseStyle B s)" and "k \<noteq> []" and "reads_back B w"
  shows "entry_ok B (k, w)"
proof -
  from assms(1) obtain t where k: "sep_free k" "trim k = k"
    and t: "sep_free t" "trim t = t" and w: "w = parseStyleValue B t"
    using parseStyle_shape by blast
  consider (T) "w = JBool True" | (F) "w = JBool False"
    | (N) n where "w = JNum n" | (S) "w = JStr t"
    using w by (auto simp: parseStyleValue_def split: if_splits)
  then have "string_of_val B w \<noteq> [] \<and> sep_free (string_of_val B w) \<and>
      trim (string_of_val B w) = string_of_val B w \<and>
      parseStyleValue B (string_of_val B w) = w"
  proof cases
    case T
    then show ?thesis by (simp add: sep_free_def trim_true parseStyleValue_def)
  next
    case F
    then show ?thesis by (simp add: sep_free_def trim_false parseStyleValue_def)
  next
    case (N n)
    with assms(3) show ?thesis by (simp add: reads_back_def Let_def sep_free_def)
  next
    case S
    from S w have p: "parseStyleValue B t = JStr t" by simp
    from assms(3) S have "t \<noteq> []" by (simp add: reads_back_def)
    with S t p show ?thesis by simp
  qed
  with k assms(2) show ?thesis by (simp add: entry_ok_def)
qed

subsection \<open>The round trip\<close>

text \<open>
  Claim C1, amended. The claim as stated (for every input string) fails: a segment whose
  key consists of white space only passes the guard, is stored under the empty key,
  and is dropped when the formatted string is parsed again. What holds: for every
  input string \<open>s\<close> such that every key stored by \<^verbatim>\<open>parseStyle(s)\<close> is non-empty, and
  built-ins under which every stored value reads back (\<open>reads_back\<close>: \<^verbatim>\<open>String\<close> of a
  stored number is a non-empty text without separators or surrounding white space that
  \<^verbatim>\<open>parseStyleValue\<close> turns into the same number, and no stored string is empty; both
  hold for the built-ins of ECMAScript), parsing, formatting and parsing again gives
  the mapping of the first parse: same keys, same values, same order.
\<close>

theorem style_roundtrip:
  assumes "[] \<notin> fst ` set (parseStyle B s)"
    and "\<forall>w \<in> snd ` set (parseStyle B s). reads_back B w"
  shows "parseStyle B (formatStyle B (parseStyle B s)) = parseStyle B s"
proof (rule parse_format_id)
  show "well_kept (parseStyle B s)" by (rule well_kept_parseStyle)
  show "\<forall>e \<in> set (parseStyle B s). entry_ok B e"
  proof
    fix e assume e: "e \<in> set (parseStyle B s)"
    obtain k w where kw: "e = (k, w)" by (cases e)
    with e assms have "k \<noteq> []" and "reads_back B w" by force+
    with e kw show "entry_ok B e" using parsed_entry_ok by blast
  qed
qed

lemma rt_parse: "parseStyle int_builtins ''fillColor=#fff;rounded=1;10=x; html = true ;2=-7'' =
  [(''2'', JNum (Finite (- 7))), (''10'', JStr ''x''), (''fillColor'', JStr ''#fff''),
   (''rounded'', JNum (Finite 1)), (''html'', JBool True)]"
  by code_simp

lemma rt_format: "formatStyle int_builtins
  [(''2'', JNum (Finite (- 7))), (''10'', JStr ''x''), (''fillColor'', JStr ''#fff''),
   (''rounded'', JNum (Finite 1)), (''html'', JBool True)] =
  ''2=-7;10=x;fillColor=#fff;rounded=1;html=true''"
  by code_simp

lemma rt_reads_back: "list_all (reads_back int_builtins)
  [JNum (Finite (- 7)), JStr ''x'', JStr ''#fff'', JNum (Finite 1), JBool True]"
  by code_simp

theorem style_roundtrip_witness:
  "parseStyle int_builtins ''fillColor=#fff;rounded=1;10=x; html = true ;2=-7'' =
     [(''2'', JNum (Finite (- 7))), (''10'', JStr ''x''), (''fillColor'', JStr ''#fff''),
      (''rounded'', JNum (Finite 1)), (''html'', JBool True)] \<and>
   formatStyle int_builtins
     (parseStyle int_builtins ''fillColor=#fff;rounded=1;10=x; html = true ;2=-7'') =
     ''2=-7;10=x;fillColor=#fff;rounded=1;html=true'' \<and>
   parseStyle int_builtins (formatStyle int_builtins
     (parseStyle int_builtins ''fillColor=#fff;rounded=1;10=x; html = true ;2=-7'')) =
     parseStyle int_builtins ''fillColor=#fff;rounded=1;10=x; html = true ;2=-7''"
proof -
  let ?s = "''fillColor=#fff;rounded=1;10=x; html = true ;2=-7''"
  have keys: "[] \<notin> fst ` set (parseStyle int_builtins ?s)"
    by (simp add: rt_parse)
  have vals: "\<forall>w \<in> snd ` set (parseStyle int_builtins ?s). reads_back int_builtins w"
    using rt_reads_back by (simp add: rt_parse)
  from style_roundtrip [OF keys vals] show ?thesis
    by (simp add: rt_parse rt_format)
qed

text \<open>The input \<^verbatim>\<open>" =true"\<close>: stored under the empty key, formatted as \<^verbatim>\<open>"=true"\<close>,
  which parses to the empty mapping.\<close>

theorem style_roundtrip_counterexample:
  "parseStyle int_builtins '' =true'' = [([], JBool True)] \<and>
   formatStyle int_builtins (parseStyle int_builtins '' =true'') = ''=true'' \<and>
   parseStyle int_builtins (formatStyle int_builtins (parseStyle int_builtins '' =true'')) = [] \<and>
   parseStyle int_builtins (formatStyle int_builtins (parseStyle int_builtins '' =true''))
     \<noteq> parseStyle int_builtins '' =true''"
  by code_simp

subsection \<open>The instance of the built-ins reads back every value\<close>

text \<open>For the instance used in the examples the side condition on the built-ins holds
  throughout: every value that \<^verbatim>\<open>parseStyle\<close> stores reads back, so the round trip holds
  for every input string without a blank key.\<close>

lemma digit_char_facts:
  assumes "0 \<le> d" and "d < 10"
  shows "is_digit (digit_char d) \<and> digit_val (digit_char d) = d"
proof -
  from assms have "d = 0 \<or> d = 1 \<or> d = 2 \<or> d = 3 \<or> d = 4 \<or> d = 5 \<or> d = 6 \<or> d = 7 \<or> d = 8 \<or> d = 9"
    by arith
  then show ?thesis
    by (elim disjE) (simp_all add: is_digit_def digit_val_def digit_char_def)
qed

lemma show_nat_digits:
  "0 \<le> n \<Longrightarrow> show_nat n \<noteq> [] \<and> list_all is_digit (show_nat n) \<and>
     foldl (\<lambda>a c. 10 * a + digit_val c) a0 (show_nat n) = a0 * 10 ^ length (show_nat n) + n"
proof (induction n arbitrary: a0 rule: show_nat.induct)
  case (1 n)
  show ?case
  proof (cases "n < 10")
    case True
    then have s: "show_nat n = [digit_char n]" by (subst show_nat.simps) simp
    from "1.prems" True digit_char_facts [of n] show ?thesis
      by (simp add: s)
  next
    case False
    then have q: "0 \<le> n div 10" and r: "0 \<le> n mod 10" "n mod 10 < 10" by simp_all
    from "1.IH" [OF False q]
    have ih: "show_nat (n div 10) \<noteq> []" "list_all is_digit (show_nat (n div 10))"
      "\<And>a. foldl (\<lambda>a c. 10 * a + digit_val c) a (show_nat (n div 10)) =
         a * 10 ^ length (show_nat (n div 10)) + n div 10" by blast+
    have s: "show_nat n = show_nat (n div 10) @ [digit_char (n mod 10)]"
      using False by (subst show_nat.simps) simp
    from ih digit_char_facts [OF r] show ?thesis
      by (simp add: s algebra_simps)
  qed
qed

lemma decimal_val_show_nat: "0 \<le> n \<Longrightarrow> decimal_val (show_nat n) = n"
  using show_nat_digits [of n 0] by (simp add: decimal_val_def)

lemma show_nat_ends:
  "0 \<le> n \<Longrightarrow> is_digit (hd (show_nat n)) \<and> is_digit (last (show_nat n))"
  using show_nat_digits [of n 0]
  by (cases "show_nat n") (auto simp: list_all_iff)

lemma is_digit_plain:
  "is_digit c \<Longrightarrow> \<not> is_ws c \<and> c \<notin> set ''-+tf;=''"
  by (auto simp: is_digit_def is_ws_def)

lemma int_reads_back: "reads_back int_builtins (JNum (Finite i))"
proof -
  let ?m = "if i < 0 then - i else i"
  let ?t = "int_String (Finite i)"
  have m: "0 \<le> ?m" by simp
  obtain c cs where sn: "show_nat ?m = c # cs"
    using show_nat_digits [OF m, of 0] by (cases "show_nat ?m") auto
  have all: "list_all is_digit (c # cs)"
    using show_nat_digits [OF m, of 0] sn by simp
  then have c: "is_digit c" and l: "is_digit (last (c # cs))"
    by (auto simp: list_all_iff)
  have dv: "decimal_val (c # cs) = ?m" using decimal_val_show_nat [OF m] sn by simp
  have t: "?t = (if i < 0 then CHR ''-'' # c # cs else c # cs)"
    using sn by (auto simp: int_String_def)
  have plain: "\<forall>x \<in> set (c # cs). x \<notin> set ''-+tf;=''"
    using all is_digit_plain by (auto simp: list_all_iff)
  have trim_t: "trim ?t = ?t"
    using c l is_digit_plain by (intro trim_id) (auto simp: t is_ws_def)
  have num: "int_Number ?t = Finite i"
    using c is_digit_plain [OF c] all dv
    by (auto simp: int_Number_def trim_t [unfolded t] t read_digits_def negate_def)
  have seps: "CHR '';'' \<notin> set ?t \<and> CHR ''='' \<notin> set ?t"
    using plain by (auto simp: t)
  have nt: "?t \<noteq> ''true'' \<and> ?t \<noteq> ''false''"
    using is_digit_plain [OF c] by (auto simp: t)
  show ?thesis
    using trim_t seps nt num
    by (simp add: reads_back_def Let_def int_builtins_def parseStyleValue_def t)
qed

lemma int_stored_reads_back:
  assumes "(k, w) \<in> set (parseStyle int_builtins s)"
  shows "reads_back int_builtins w"
proof -
  from assms obtain part where "stored_by int_builtins part k w"
    using parseStyle_entries by blast
  then obtain t where w: "w = parseStyleValue int_builtins t"
    by (auto simp: stored_by_def)
  have z: "int_Number [] = Finite 0" by (simp add: int_Number_def trim_def)
  show ?thesis
  proof (cases w)
    case (JNum n)
    with w have "n \<noteq> NaN"
      by (auto simp: parseStyleValue_def int_builtins_def split: if_splits)
    then obtain i where "n = Finite i" by (cases n) auto
    with JNum show ?thesis by (simp add: int_reads_back)
  next
    case (JStr u)
    with w z have "u \<noteq> []"
      by (auto simp: parseStyleValue_def int_builtins_def split: if_splits)
    with JStr show ?thesis by (simp add: reads_back_def)
  qed (simp_all add: reads_back_def)
qed

lemma int_roundtrip:
  assumes "[] \<notin> fst ` set (parseStyle int_builtins s)"
  shows "parseStyle int_builtins (formatStyle int_builtins (parseStyle int_builtins s)) =
         parseStyle int_builtins s"
proof (rule parse_format_id)
  show "well_kept (parseStyle int_builtins s)" by (rule well_kept_parseStyle)
  show "\<forall>e \<in> set (parseStyle int_builtins s). entry_ok int_builtins e"
  proof
    fix e assume e: "e \<in> set (parseStyle int_builtins s)"
    obtain k w where kw: "e = (k, w)" by (cases e)
    with e assms have "k \<noteq> []" by force
    moreover from e kw have "reads_back int_builtins w" using int_stored_reads_back by blast
    ultimately show "entry_ok int_builtins e" using e kw parsed_entry_ok by blast
  qed
qed

subsection \<open>Segments with more than one equals sign\<close>

text \<open>A segment without an equals sign has no value and contributes nothing; one
  with a single equals sign contributes its trimmed key and coerced value when neither
  side is empty.\<close>

lemma parse_part_no_equals:
  assumes "CHR ''='' \<notin> set part"
  shows "parse_part B part st = st"
  using assms by (simp add: parse_part_def split_on_no_sep at_index_def)

lemma parse_part_one_equals:
  assumes "CHR ''='' \<notin> set k" and "CHR ''='' \<notin> set v"
  shows "parse_part B (k @ ''='' @ v) st =
    (if k \<noteq> [] \<and> v \<noteq> [] then obj_set st (trim k) (parseStyleValue B (trim v)) else st)"
proof -
  have "split_on CHR ''='' (k @ CHR ''='' # v) = k # split_on CHR ''='' v"
    using assms(1) by (rule split_on_append)
  then show ?thesis
    using assms(2) by (simp add: parse_part_def at_index_def split_on_no_sep)
qed

text \<open>Of the pieces between the equals signs of a segment only the first two are
  used: what follows a second equals sign is discarded.\<close>

lemma parse_part_two_fields:
  assumes "CHR ''='' \<notin> set k" and "CHR ''='' \<notin> set a"
  shows "parse_part B (k @ ''='' @ a @ ''='' @ rest) st =
    (if k \<noteq> [] \<and> a \<noteq> [] then obj_set st (trim k) (parseStyleValue B (trim a)) else st)"
proof -
  obtain p ps where r: "split_on CHR ''='' rest = p # ps"
    using split_on_not_Nil [of "CHR ''=''" rest] by (cases "split_on CHR ''='' rest") auto
  have "split_on CHR ''='' (k @ CHR ''='' # a @ CHR ''='' # rest) =
      k # split_on CHR ''='' (a @ CHR ''='' # rest)"
    using assms(1) by (rule split_on_append)
  also have "split_on CHR ''='' (a @ CHR ''='' # rest) = a # split_on CHR ''='' rest"
    using assms(2) by (rule split_on_append)
  finally show ?thesis
    by (simp add: parse_part_def at_index_def r)
qed

text \<open>
  Claim C2 says that a segment is split at its first equals sign, so that \<^verbatim>\<open>k=a=b\<close>
  maps \<open>k\<close> to \<^verbatim>\<open>a=b\<close>. The code splits at every equals sign and keeps two pieces:
  on \<^verbatim>\<open>k=a=b\<close> it maps \<open>k\<close> to \<open>a\<close>, while \<^verbatim>\<open>formatStyle\<close> writes a value that
  holds an equals sign in full.
\<close>

theorem parseStyle_second_eq:
  "parseStyle int_builtins ''k=a=b'' = [(''k'', JStr ''a'')] \<and>
   parseStyle int_builtins ''k=a=b'' \<noteq> [(''k'', JStr ''a=b'')]"
  by code_simp

subsection \<open>Entries whose value is the empty string\<close>

lemma no_empty_string_stored:
  assumes "\<not> js_isNaN B (js_Number B [])"
  shows "(k, JStr []) \<notin> set (parseStyle B s)"
proof
  assume "(k, JStr []) \<in> set (parseStyle B s)"
  then obtain part where "stored_by B part k (JStr [])"
    using parseStyle_entries by blast
  then obtain t where "JStr [] = parseStyleValue B t"
    by (auto simp: stored_by_def)
  with assms show False
    by (auto simp: parseStyleValue_def split: if_splits)
qed

lemma emitted_segment:
  "(k, w) \<in> set m \<Longrightarrow> w \<noteq> JUndefined \<Longrightarrow> w \<noteq> JNull \<Longrightarrow>
     k @ ''='' @ string_of_val B w \<in> set (fold (format_entry B) m acc)"
  by (force simp: fold_format_entry)

lemma stored_by_plain_segment:
  assumes "stored_by B (k' @ CHR ''='' # t) k w" and "CHR ''='' \<notin> set k'"
  shows "k = trim k' \<and> t \<noteq> []"
proof -
  obtain p ps where r: "split_on CHR ''='' t = p # ps"
    using split_on_not_Nil [of "CHR ''=''" t] by (cases "split_on CHR ''='' t") auto
  have s: "split_on CHR ''='' (k' @ CHR ''='' # t) = k' # split_on CHR ''='' t"
    using assms(2) by (rule split_on_append)
  from assms(1) have "k = trim k'" and "p \<noteq> []"
    by (auto simp: stored_by_def s r at_index_def)
  moreover have "t = [] \<Longrightarrow> p = []" using r by auto
  ultimately show ?thesis by blast
qed

lemma plain_keys_lacks:
  assumes m: "(k, JStr []) \<in> set m" and pk: "plain_keys B m"
  shows "k \<notin> fst ` set (parseStyle B (formatStyle B m))"
proof
  let ?keep = "filter (\<lambda>(k, v). v \<noteq> JUndefined \<and> v \<noteq> JNull) m"
  let ?segs = "map (\<lambda>(k, v). k @ ''='' @ string_of_val B v) ?keep"
  assume "k \<in> fst ` set (parseStyle B (formatStyle B m))"
  then obtain w where "(k, w) \<in> set (parseStyle B (formatStyle B m))" by auto
  then obtain part where part: "part \<in> set (split_on CHR '';'' (formatStyle B m))"
    and st: "stored_by B part k w"
    using parseStyle_entries by blast
  have fmt: "formatStyle B m = join_with '';'' ?segs"
    by (simp add: formatStyle_def fold_format_entry)
  from m have ne: "?segs \<noteq> []" by (auto simp: filter_empty_conv)
  from pk have each: "\<forall>e \<in> set m. sep_free (fst e) \<and> trim (fst e) = fst e \<and>
      CHR '';'' \<notin> set (string_of_val B (snd e))"
    by (simp add: plain_keys_def list_all_iff)
  then have "\<forall>p \<in> set ?segs. CHR '';'' \<notin> set p"
    by (auto simp: sep_free_def)
  with ne have "split_on CHR '';'' (join_with '';'' ?segs) = ?segs"
    by (rule split_on_join)
  with part fmt have "part \<in> set ?segs" by simp
  then obtain k' w' where e: "(k', w') \<in> set m" and p: "part = k' @ CHR ''='' # string_of_val B w'"
    by auto
  from each e have k': "CHR ''='' \<notin> set k'" "trim k' = k'"
    by (auto simp: sep_free_def)
  from st p k' have "k = k'" and t: "string_of_val B w' \<noteq> []"
    using stored_by_plain_segment [of B k' "string_of_val B w'" k w] by auto
  with e m pk have "w' = JStr []"
    by (metis plain_keys_def eq_key_imp_eq_value)
  with t show False by simp
qed

text \<open>
  Claim C9, amended. The claim as stated fails where another segment of the formatted
  string supplies the key again (a second key that differs by surrounding white space,
  or a key or value that holds a separator). What holds: for every style mapping \<open>m\<close>
  with an entry whose value is the empty string, \<^verbatim>\<open>formatStyle\<close> emits the segment
  \<open>key=\<close> for it; provided \<^verbatim>\<open>Number("")\<close> is not NaN (it is 0 in ECMAScript),
  \<^verbatim>\<open>parseStyle(formatStyle(m))\<close> differs from \<open>m\<close>; and when \<open>m\<close> has plain keys,
  \<^verbatim>\<open>parseStyle\<close> drops the segment \<open>key=\<close> and \<^verbatim>\<open>parseStyle(formatStyle(m))\<close> lacks
  the key.
\<close>

theorem empty_value_dropped:
  assumes "(k, JStr []) \<in> set m"
  shows "k @ ''='' \<in> set (fold (format_entry B) m []) \<and>
    (\<not> js_isNaN B (js_Number B []) \<longrightarrow> parseStyle B (formatStyle B m) \<noteq> m) \<and>
    (plain_keys B m \<longrightarrow>
       parse_part B (k @ ''='') st = st \<and>
       k \<notin> fst ` set (parseStyle B (formatStyle B m)))"
proof (intro conjI impI)
  show "k @ ''='' \<in> set (fold (format_entry B) m [])"
    using emitted_segment [OF assms, of B "[]"] by simp
  show "parseStyle B (formatStyle B m) \<noteq> m" if "\<not> js_isNaN B (js_Number B [])"
    using no_empty_string_stored [OF that, of k "formatStyle B m"] assms by auto
  show "k \<notin> fst ` set (parseStyle B (formatStyle B m))" if "plain_keys B m"
    using assms that by (rule plain_keys_lacks)
  show "parse_part B (k @ ''='') st = st" if "plain_keys B m"
  proof -
    from that assms have "CHR ''='' \<notin> set k"
      by (auto simp: plain_keys_def list_all_iff sep_free_def)
    then have "split_on CHR ''='' (k @ CHR ''='' # []) = k # split_on CHR ''='' []"
      by (rule split_on_append)
    then show ?thesis by (simp add: parse_part_def at_index_def)
  qed
qed

text \<open>A mapping with plain keys, one value empty.\<close>

lemma ev_format:
  "formatStyle int_builtins [(''fillColor'', JStr ''#fff''), (''a'', JStr [])] =
     ''fillColor=#fff;a=''"
  by code_simp

lemma ev_parse:
  "parseStyle int_builtins ''fillColor=#fff;a='' = [(''fillColor'', JStr ''#fff'')]"
  by code_simp

lemma ev_plain: "plain_keys int_builtins [(''fillColor'', JStr ''#fff''), (''a'', JStr [])]"
  by code_simp

lemma ev_zero: "int_Number [] = Finite 0"
  by code_simp

theorem empty_value_dropped_witness:
  "formatStyle int_builtins [(''fillColor'', JStr ''#fff''), (''a'', JStr [])] = ''fillColor=#fff;a='' \<and>
   parseStyle int_builtins ''fillColor=#fff;a='' = [(''fillColor'', JStr ''#fff'')] \<and>
   ''a='' \<in> set (fold (format_entry int_builtins) [(''fillColor'', JStr ''#fff''), (''a'', JStr [])] []) \<and>
   parse_part int_builtins ''a='' [(''fillColor'', JStr ''#fff'')] = [(''fillColor'', JStr ''#fff'')] \<and>
   ''a'' \<notin> fst ` set (parseStyle int_builtins
      (formatStyle int_builtins [(''fillColor'', JStr ''#fff''), (''a'', JStr [])])) \<and>
   parseStyle int_builtins (formatStyle int_builtins [(''fillColor'', JStr ''#fff''), (''a'', JStr [])])
     \<noteq> [(''fillColor'', JStr ''#fff''), (''a'', JStr [])]"
proof -
  let ?m = "[(''fillColor'', JStr ''#fff''), (''a'', JStr [])] :: jsnum CellStyle"
  have m: "(''a'', JStr []) \<in> set ?m" by simp
  have z: "\<not> js_isNaN int_builtins (js_Number int_builtins [])"
    by (simp add: int_builtins_def ev_zero)
  from empty_value_dropped [OF m, of int_builtins "[(''fillColor'', JStr ''#fff'')]"] z ev_plain
  show ?thesis by (simp add: ev_format ev_parse)
qed

text \<open>Two keys that differ by a leading blank: the entry of the second is stored under
  the first key, whose value was empty.\<close>

theorem empty_value_dropped_counterexample:
  "(''a'', JStr []) \<in> set [(''a'', JStr []), ('' a'', JStr ''x'' :: jsnum jsval)] \<and>
   formatStyle int_builtins [(''a'', JStr []), ('' a'', JStr ''x'')] = ''a=; a=x'' \<and>
   parseStyle int_builtins (formatStyle int_builtins [(''a'', JStr []), ('' a'', JStr ''x'')]) =
     [(''a'', JStr ''x'')] \<and>
   ''a'' \<in> fst ` set (parseStyle int_builtins
     (formatStyle int_builtins [(''a'', JStr []), ('' a'', JStr ''x'')]))"
  by code_simp

section \<open>Properties of the validation\<close>

text \<open>
  Claim C7. \<^verbatim>\<open>validateAIResponse\<close> returns \<^verbatim>\<open>true\<close> exactly when the response is
  truthy, its \<^verbatim>\<open>diagram\<close> is truthy, \<^verbatim>\<open>diagram.cells\<close> is an array and
  \<^verbatim>\<open>description\<close> is a string; otherwise it returns a falsy value, and it never
  throws. The response with an empty \<^verbatim>\<open>cells\<close> array is accepted; the one whose diagram
  has no \<^verbatim>\<open>cells\<close> and the one without a diagram are rejected.
\<close>

theorem validateAIResponse_accepts:
  fixes B :: "'n builtins" and r :: "'n json"
  shows "(validateAIResponse B r = Inr (JsBool True)) =
     (truthy B r \<and>
      (\<exists>d. get_prop r ''diagram'' = Inr d \<and> truthy B d \<and>
           (\<exists>c. get_prop d ''cells'' = Inr c \<and> isArray c)) \<and>
      (\<exists>s. get_prop r ''description'' = Inr (JsStr s))) \<and>
   (\<exists>v. validateAIResponse B r = Inr v \<and> (v = JsBool True \<or> \<not> truthy B v)) \<and>
   validateAIResponse B
     (JsObj [(''diagram'', JsObj [(''cells'', JsArr [])]), (''description'', JsStr ''ok'')])
     = Inr (JsBool True) \<and>
   validateAIResponse B (JsObj [(''diagram'', JsObj []), (''description'', JsStr ''ok'')])
     = Inr (JsBool False) \<and>
   validateAIResponse B (JsObj [(''description'', JsStr ''ok'')]) = Inr JsUndefined"
proof -
  have never_null: "get_prop v name \<noteq> Inl e" if "truthy B v" for v :: "'n json" and name e
    using that by (cases v) auto
  have str: "is_string v = (\<exists>s. v = JsStr s)" for v :: "'n json"
    by (cases v) auto
  have a: "(validateAIResponse B r = Inr (JsBool True)) =
     (truthy B r \<and>
      (\<exists>d. get_prop r ''diagram'' = Inr d \<and> truthy B d \<and>
           (\<exists>c. get_prop d ''cells'' = Inr c \<and> isArray c)) \<and>
      (\<exists>s. get_prop r ''description'' = Inr (JsStr s)))"
    using never_null [of r] never_null
    by (auto simp: validateAIResponse_def str split: sum.splits)
  have b: "\<exists>v. validateAIResponse B r = Inr v \<and> (v = JsBool True \<or> \<not> truthy B v)"
  proof (cases "truthy B r")
    case False
    then show ?thesis by (simp add: validateAIResponse_def)
  next
    case True
    then obtain d where d: "get_prop r ''diagram'' = Inr d"
      using never_null [of r "''diagram''"] by (cases "get_prop r ''diagram''") auto
    from True obtain s where s: "get_prop r ''description'' = Inr s"
      using never_null [of r "''description''"] by (cases "get_prop r ''description''") auto
    show ?thesis
    proof (cases "truthy B d")
      case False
      with True d show ?thesis by (simp add: validateAIResponse_def)
    next
      case td: True
      then obtain c where c: "get_prop d ''cells'' = Inr c"
        using never_null [of d "''cells''"] by (cases "get_prop d ''cells''") auto
      with True td d s show ?thesis
        by (cases "is_string s") (simp_all add: validateAIResponse_def)
    qed
  qed
  show ?thesis
    using a b by (simp add: validateAIResponse_def)
qed

section \<open>Properties of the export\<close>

text \<open>
  Claim C8. Every cell that is an edge or a vertex is exported, whether or not it
  has a geometry record. Without one the exported geometry is all zero; with one,
  each of x, y, width and height is copied, a falsy component (zero or NaN) giving
  zero.
\<close>

theorem cellToJSON_geometry:
  assumes "isEdge c \<or> isVertex c"
  shows "\<exists>gc. cellToJSON B g (Some c) = Some gc \<and>
    gc_geometry gc =
      (case getGeometry c of
         None \<Rightarrow> \<lparr>geo_x = js_zero B, geo_y = js_zero B,
                   geo_width = js_zero B, geo_height = js_zero B\<rparr>
       | Some r \<Rightarrow>
           \<lparr>geo_x = (if geo_x r = js_zero B \<or> js_isNaN B (geo_x r) then js_zero B else geo_x r),
            geo_y = (if geo_y r = js_zero B \<or> js_isNaN B (geo_y r) then js_zero B else geo_y r),
            geo_width =
              (if geo_width r = js_zero B \<or> js_isNaN B (geo_width r) then js_zero B
               else geo_width r),
            geo_height =
              (if geo_height r = js_zero B \<or> js_isNaN B (geo_height r) then js_zero B
               else geo_height r)\<rparr>)"
  using assms
  by (auto simp: cellToJSON_def num_or_def split: option.splits)

theorem cellToJSON_geometry_witness:
  "map_option gc_geometry (cellToJSON int_builtins empty_graph (Some bare_vertex)) =
     Some \<lparr>geo_x = Finite 0, geo_y = Finite 0, geo_width = Finite 0, geo_height = Finite 0\<rparr> \<and>
   map_option gc_geometry (cellToJSON int_builtins empty_graph (Some nan_vertex)) =
     Some \<lparr>geo_x = Finite 20, geo_y = Finite 0, geo_width = Finite 0, geo_height = Finite 60\<rparr>"
proof -
  have "isEdge bare_vertex \<or> isVertex bare_vertex" by (simp add: bare_vertex_def)
  from cellToJSON_geometry [OF this, of int_builtins empty_graph]
  have a: "map_option gc_geometry (cellToJSON int_builtins empty_graph (Some bare_vertex)) =
     Some \<lparr>geo_x = Finite 0, geo_y = Finite 0, geo_width = Finite 0, geo_height = Finite 0\<rparr>"
    by (auto simp: bare_vertex_def int_builtins_def)
  have "isEdge nan_vertex \<or> isVertex nan_vertex" by (simp add: nan_vertex_def)
  from cellToJSON_geometry [OF this, of int_builtins empty_graph]
  have b: "map_option gc_geometry (cellToJSON int_builtins empty_graph (Some nan_vertex)) =
     Some \<lparr>geo_x = Finite 20, geo_y = Finite 0, geo_width = Finite 0, geo_height = Finite 60\<rparr>"
    by (auto simp: nan_vertex_def int_builtins_def)
  from a b show ?thesis by blast
qed

section \<open>Properties of the import\<close>

subsection \<open>The stages\<close>

lemma import_stages:
  "importGraphFromJSON B W graph gdata c =
     (case create_edges B W (snd (after_vertices B W graph (gd_cells gdata) c))
             (getDefaultParent (cleared graph c)) (gd_cells gdata)
             (fst (after_vertices B W graph (gd_cells gdata) c)) of
        Inl err \<Rightarrow> Inl err
      | Inr g3 \<Rightarrow> Inr (with_viewport gdata g3))"
  unfolding importGraphFromJSON_def cleared_def [symmetric]
  by (simp add: after_vertices_def with_viewport_def Let_def case_prod_beta
      split: sum.splits option.splits)

lemma store_with_viewport: "store (with_viewport d g) = store g"
  by (simp add: with_viewport_def split: option.splits)

lemma grows_refl: "grows g g"
  by (simp add: grows_def)

lemma grows_trans: "grows g g' \<Longrightarrow> grows g' g'' \<Longrightarrow> grows g g''"
  by (auto simp: grows_def)

lemma grows_length: "grows g g' \<Longrightarrow> length (store g) \<le> length (store g')"
  by (auto simp: grows_def)

lemma grows_nth: "grows g g' \<Longrightarrow> h < length (store g) \<Longrightarrow> store g' ! h = store g ! h"
  by (auto simp: grows_def nth_append)

lemma grows_at_index:
  "grows g g' \<Longrightarrow> at_index (store g) h = Some c \<Longrightarrow> at_index (store g') h = Some c"
  by (auto simp: grows_def at_index_def nth_append split: if_splits)

lemma grows_made_from: "grows g g' \<Longrightarrow> made_from B g p base v h \<Longrightarrow> made_from B g' p base v h"
  using grows_nth [of g g' h] grows_length [of g g']
  by (auto simp: made_from_def)

lemma grows_idMap_from:
  "grows g g' \<Longrightarrow> idMap_from B g p base S idm \<Longrightarrow> idMap_from B g' p base S idm"
  using grows_made_from unfolding idMap_from_def by blast

lemma idMap_from_mono: "S \<subseteq> S' \<Longrightarrow> idMap_from B g p base S idm \<Longrightarrow> idMap_from B g p base S' idm"
  unfolding idMap_from_def by blast

lemma made_from_child: "made_from B g p base v h \<Longrightarrow> h \<in> set (children g p)"
  by (simp add: made_from_def children_def)

subsection \<open>The first pass\<close>

lemma insertVertex_made:
  assumes "insertVertex B W g v (Some p) = (g', h)" and "base \<le> length (store g)"
  shows "h = length (store g) \<and> grows g g' \<and> made_from B g' p base v h"
  using assms
  by (auto simp: insertVertex_def graph_insertVertex_def Let_def grows_def made_from_def)

lemma create_vertex_step:
  assumes "idMap_from B g p base S idm" and "base \<le> length (store g)"
    and "create_vertex B W (Some p) v (g, idm) = (g', idm')"
  shows "grows g g' \<and> idMap_from B g' p base (insert v S) idm' \<and>
         (\<forall>k. resolves idm k \<longrightarrow> resolves idm' k) \<and>
         (gc_type v = Vertex \<longrightarrow> resolves idm' (gc_id v))"
proof (cases "gc_type v = Vertex")
  case False
  with assms(3) have "g' = g" "idm' = idm" by (simp_all add: create_vertex_def)
  moreover have "idMap_from B g p base (insert v S) idm"
    by (rule idMap_from_mono [OF subset_insertI assms(1)])
  ultimately show ?thesis using False by (simp add: grows_refl)
next
  case True
  obtain g1 h where iv: "insertVertex B W g v (Some p) = (g1, h)"
    by (cases "insertVertex B W g v (Some p)")
  with True assms(3) have g': "g' = g1" and idm': "idm' = idMap_set idm (gc_id v) h"
    by (simp_all add: create_vertex_def)
  from insertVertex_made [OF iv assms(2)]
  have gr: "grows g g'" and new: "made_from B g' p base v h" by (auto simp: g')
  from gr assms(1) have "idMap_from B g' p base S idm" by (rule grows_idMap_from)
  then have old: "idMap_from B g' p base (insert v S) idm"
    by (rule idMap_from_mono [OF subset_insertI])
  note vt = True
  have ok: "idMap_from B g' p base (insert v S) idm'"
    unfolding idMap_from_def
  proof (intro conjI allI impI)
    show "own idm' ''__proto__'' = None"
      using old by (simp add: idm' idMap_set_def idMap_from_def)
  next
    fix k h' assume a: "own idm' k = Some h'"
    show "\<exists>u \<in> insert v S. gc_type u = Vertex \<and> gc_id u = k \<and> made_from B g' p base u h'"
    proof (cases "own idm k = Some h'")
      case True
      then show ?thesis using old unfolding idMap_from_def by blast
    next
      case False
      with a have "k = gc_id v \<and> h' = h"
        by (auto simp: idm' idMap_set_def split: if_splits)
      with new vt show ?thesis by blast
    qed
  next
    fix h' assume a: "proto idm' = Some h'"
    show "\<exists>u \<in> insert v S. gc_type u = Vertex \<and> gc_id u = ''__proto__'' \<and>
        made_from B g' p base u h'"
    proof (cases "proto idm = Some h'")
      case True
      then show ?thesis using old unfolding idMap_from_def by blast
    next
      case False
      with a have "gc_id v = ''__proto__'' \<and> h' = h"
        by (auto simp: idm' idMap_set_def split: if_splits)
      with new vt show ?thesis by blast
    qed
  qed
  have keep: "\<forall>k. resolves idm k \<longrightarrow> resolves idm' k"
    by (auto simp: idm' idMap_set_def resolves_def)
  have "resolves idm' (gc_id v)"
    by (simp add: idm' idMap_set_def resolves_def)
  with gr ok keep show ?thesis by blast
qed

lemma create_vertex_fold:
  assumes "idMap_from B g p base S idm" and "base \<le> length (store g)"
    and "fold (create_vertex B W (Some p)) es (g, idm) = (g', idm')"
  shows "grows g g' \<and> idMap_from B g' p base (S \<union> set es) idm' \<and>
         (\<forall>k. resolves idm k \<longrightarrow> resolves idm' k) \<and>
         (\<forall>v \<in> set es. gc_type v = Vertex \<longrightarrow> resolves idm' (gc_id v))"
  using assms
proof (induction es arbitrary: g idm S)
  case Nil
  then show ?case by (simp add: grows_refl)
next
  case (Cons v es)
  obtain g1 idm1 where s: "create_vertex B W (Some p) v (g, idm) = (g1, idm1)"
    by (cases "create_vertex B W (Some p) v (g, idm)")
  from create_vertex_step [OF Cons.prems(1,2) s]
  have st: "grows g g1" "idMap_from B g1 p base (insert v S) idm1"
    "\<forall>k. resolves idm k \<longrightarrow> resolves idm1 k"
    "gc_type v = Vertex \<longrightarrow> resolves idm1 (gc_id v)" by blast+
  from st(1) Cons.prems(2) have b: "base \<le> length (store g1)"
    using grows_length [of g g1] by simp
  from Cons.prems(3) s have f: "fold (create_vertex B W (Some p)) es (g1, idm1) = (g', idm')"
    by simp
  from Cons.IH [OF st(2) b f]
  have ih: "grows g1 g'" "idMap_from B g' p base (insert v S \<union> set es) idm'"
    "\<forall>k. resolves idm1 k \<longrightarrow> resolves idm' k"
    "\<forall>v \<in> set es. gc_type v = Vertex \<longrightarrow> resolves idm' (gc_id v)" by blast+
  from st(1) ih(1) have "grows g g'" by (rule grows_trans)
  moreover from st(3) ih(3) have "\<forall>k. resolves idm k \<longrightarrow> resolves idm' k" by blast
  moreover from st(4) ih(3,4)
  have "\<forall>w \<in> set (v # es). gc_type w = Vertex \<longrightarrow> resolves idm' (gc_id w)" by auto
  moreover from ih(2) have "idMap_from B g' p base (S \<union> set (v # es)) idm'" by simp
  ultimately show ?case by blast
qed

lemma after_vertices_facts:
  assumes "getDefaultParent g = Some p" and "after_vertices B W g es False = (g2, idm)"
  shows "grows g g2 \<and> idMap_from B g2 p (length (store g)) (set es) idm \<and>
         (\<forall>v \<in> set es. gc_type v = Vertex \<longrightarrow> resolves idm (gc_id v))"
proof -
  have ok: "idMap_from B g p (length (store g)) {} empty_idMap"
    by (simp add: idMap_from_def empty_idMap_def)
  from assms(2) have "fold (create_vertex B W (Some p)) es (g, empty_idMap) = (g2, idm)"
    by (simp add: after_vertices_def cleared_def assms(1))
  from create_vertex_fold [OF ok _ this] show ?thesis by simp
qed

subsection \<open>The second pass\<close>

lemma create_edges_append:
  "create_edges B W idm parent (xs @ ys) g =
     (case create_edges B W idm parent xs g of
        Inl err \<Rightarrow> Inl err
      | Inr g' \<Rightarrow> create_edges B W idm parent ys g')"
  by (induction xs arbitrary: g) (auto split: sum.splits)

lemma idMap_get_plain:
  assumes "proto idm = None" and "own idm k \<noteq> None \<or> \<not> inherited k"
  shows "idMap_get W g idm k = None \<or> (\<exists>h. own idm k = Some h \<and> idMap_get W g idm k = Some (Cell h))"
  using assms by (cases "own idm k") (auto simp: idMap_get_def)

lemma insertEdge_cells:
  "\<exists>c. insertEdge B W g e (Some p) (Cell hs) (Cell ht) =
          Inr (g\<lparr>store := store g @ [c]\<rparr>, length (store g)) \<and>
        isEdge c \<and> getValue c = Some (gc_value e) \<and>
        getSource c = Some (Cell hs) \<and> getTarget c = Some (Cell ht) \<and>
        (hs \<in> set (children g p) \<and> ht \<in> set (children g p) \<longrightarrow> getParent c = Some p)"
proof -
  define c where "c =
    \<lparr>getId = Some (added_id W g p (gc_id e)), getValue = Some (gc_value e),
      getGeometry = Some \<lparr>geo_x = js_zero B, geo_y = js_zero B,
                            geo_width = js_zero B, geo_height = js_zero B\<rparr>,
      getStyle = Some (connectedStyle W (formatStyle B (gc_style e))),
      isEdge = True, isVertex = False,
      getParent = Some (if hs \<in> set (children g p) \<and> ht \<in> set (children g p) then p
                        else movedParent W g p hs ht),
      getSource = Some (Cell hs), getTarget = Some (Cell ht)\<rparr>"
  have "insertEdge B W g e (Some p) (Cell hs) (Cell ht) =
          Inr (g\<lparr>store := store g @ [c]\<rparr>, length (store g))"
    by (simp add: insertEdge_def graph_insertEdge_def Let_def c_def)
  moreover have "isEdge c \<and> getValue c = Some (gc_value e) \<and>
        getSource c = Some (Cell hs) \<and> getTarget c = Some (Cell ht) \<and>
        (hs \<in> set (children g p) \<and> ht \<in> set (children g p) \<longrightarrow> getParent c = Some p)"
    by (simp add: c_def)
  ultimately show ?thesis by blast
qed

lemma create_edge_plain:
  assumes "proto idm = None"
    and "gc_type e = Edge \<and> str_or_undefined (gc_source e) \<noteq> None \<and>
           str_or_undefined (gc_target e) \<noteq> None \<Longrightarrow>
         (own idm (str_or_empty (gc_source e)) \<noteq> None \<or> \<not> inherited (str_or_empty (gc_source e))) \<and>
         (own idm (str_or_empty (gc_target e)) \<noteq> None \<or> \<not> inherited (str_or_empty (gc_target e)))"
  shows "\<exists>g'. create_edge B W idm (Some p) e g = Inr g' \<and> grows g g'"
proof (cases "gc_type e = Edge \<and> str_or_undefined (gc_source e) \<noteq> None \<and>
    str_or_undefined (gc_target e) \<noteq> None")
  case False
  then show ?thesis by (auto simp: create_edge_def grows_refl)
next
  case True
  let ?s = "str_or_empty (gc_source e)" and ?t = "str_or_empty (gc_target e)"
  from assms(2) [OF True] have s: "own idm ?s \<noteq> None \<or> \<not> inherited ?s"
    and t: "own idm ?t \<noteq> None \<or> \<not> inherited ?t" by blast+
  note gs = idMap_get_plain [OF assms(1) s, of W g] and gt = idMap_get_plain [OF assms(1) t, of W g]
  show ?thesis
  proof (cases "idMap_get W g idm ?s = None \<or> idMap_get W g idm ?t = None")
    case skip: True
    then have "create_edge B W idm (Some p) e g = Inr g"
      by (auto simp: create_edge_def split: option.splits)
    then show ?thesis by (simp add: grows_refl)
  next
    case False
    with gs gt obtain hs ht where l: "idMap_get W g idm ?s = Some (Cell hs)"
      "idMap_get W g idm ?t = Some (Cell ht)" by blast
    from insertEdge_cells [of B W g e p hs ht] obtain c where
      "insertEdge B W g e (Some p) (Cell hs) (Cell ht) =
         Inr (g\<lparr>store := store g @ [c]\<rparr>, length (store g))" by blast
    with True l have "create_edge B W idm (Some p) e g = Inr (g\<lparr>store := store g @ [c]\<rparr>)"
      by (simp add: create_edge_def)
    then show ?thesis by (simp add: grows_def)
  qed
qed

lemma create_edges_plain:
  assumes "proto idm = None"
    and "\<forall>e \<in> set es. gc_type e = Edge \<and> str_or_undefined (gc_source e) \<noteq> None \<and>
           str_or_undefined (gc_target e) \<noteq> None \<longrightarrow>
         (own idm (str_or_empty (gc_source e)) \<noteq> None \<or> \<not> inherited (str_or_empty (gc_source e))) \<and>
         (own idm (str_or_empty (gc_target e)) \<noteq> None \<or> \<not> inherited (str_or_empty (gc_target e)))"
  shows "\<exists>g'. create_edges B W idm (Some p) es g = Inr g' \<and> grows g g'"
  using assms(2)
proof (induction es arbitrary: g)
  case Nil
  show ?case by (simp add: grows_refl)
next
  case (Cons e es)
  from Cons.prems have "\<exists>g1. create_edge B W idm (Some p) e g = Inr g1 \<and> grows g g1"
    by (intro create_edge_plain [OF assms(1)]) simp
  then obtain g1 where g1: "create_edge B W idm (Some p) e g = Inr g1" "grows g g1" by blast
  from Cons.prems have "\<exists>g'. create_edges B W idm (Some p) es g1 = Inr g' \<and> grows g1 g'"
    by (intro Cons.IH) simp
  then obtain g' where "create_edges B W idm (Some p) es g1 = Inr g'" "grows g1 g'" by blast
  with g1 show ?case using grows_trans by fastforce
qed

lemma create_edge_connects:
  assumes "gc_type e = Edge" and "gc_source e = Some s" and "gc_target e = Some t"
    and "s \<noteq> []" and "t \<noteq> []"
    and "own idm s = Some hs" and "own idm t = Some ht"
    and "hs \<in> set (children g p)" and "ht \<in> set (children g p)"
  shows "\<exists>c. create_edge B W idm (Some p) e g = Inr (g\<lparr>store := store g @ [c]\<rparr>) \<and>
    isEdge c \<and> getValue c = Some (gc_value e) \<and> getParent c = Some p \<and>
    getSource c = Some (Cell hs) \<and> getTarget c = Some (Cell ht)"
proof -
  from insertEdge_cells [of B W g e p hs ht] assms(8,9) obtain c where
    c: "insertEdge B W g e (Some p) (Cell hs) (Cell ht) =
         Inr (g\<lparr>store := store g @ [c]\<rparr>, length (store g))"
    "isEdge c" "getValue c = Some (gc_value e)" "getSource c = Some (Cell hs)"
    "getTarget c = Some (Cell ht)" "getParent c = Some p" by blast
  from assms(1-7) c(1) have "create_edge B W idm (Some p) e g = Inr (g\<lparr>store := store g @ [c]\<rparr>)"
    by (simp add: create_edge_def idMap_get_def str_or_undefined_def str_or_empty_def)
  with c show ?thesis by blast
qed

lemma plain_ends_lookup:
  assumes "plain_ends es" and "idMap_from B g p base (set es) idm"
    and "\<forall>v \<in> set es. gc_type v = Vertex \<longrightarrow> resolves idm (gc_id v)"
  shows "proto idm = None \<and>
    (\<forall>e \<in> set es. gc_type e = Edge \<and> str_or_undefined (gc_source e) \<noteq> None \<and>
           str_or_undefined (gc_target e) \<noteq> None \<longrightarrow>
         (own idm (str_or_empty (gc_source e)) \<noteq> None \<or> \<not> inherited (str_or_empty (gc_source e))) \<and>
         (own idm (str_or_empty (gc_target e)) \<noteq> None \<or> \<not> inherited (str_or_empty (gc_target e))))"
proof -
  from assms(1) have np: "''__proto__'' \<notin> vertex_ids es" by (simp add: plain_ends_def)
  have own: "own idm k \<noteq> None" if "k \<in> vertex_ids es" for k
  proof -
    from that obtain v where "v \<in> set es" "gc_type v = Vertex" "gc_id v = k"
      by (auto simp: vertex_ids_def)
    with assms(3) have "resolves idm k" by blast
    moreover from that np have "k \<noteq> ''__proto__''" by blast
    ultimately show ?thesis by (simp add: resolves_def)
  qed
  have "proto idm = None"
  proof (cases "proto idm")
    case (Some h)
    with assms(2) obtain v where "v \<in> set es" "gc_type v = Vertex" "gc_id v = ''__proto__''"
      unfolding idMap_from_def by blast
    then have "''__proto__'' \<in> vertex_ids es" by (force simp: vertex_ids_def)
    with np show ?thesis by blast
  qed simp
  moreover have "own idm (str_or_empty x) \<noteq> None \<or> \<not> inherited (str_or_empty x)"
    if "end_plain es x" for x
    using that own by (auto simp: end_plain_def)
  ultimately show ?thesis
    using assms(1) by (auto simp: plain_ends_def list_all_iff)
qed

text \<open>
  Claim C5, amended. The claim as stated fails where the ends of the edge are empty
  strings (the second pass tests them for truthiness and skips the edge), and with two
  vertex elements of one id the end depends on their order. What holds: take a document
  and an edge element of it whose source and target are non-empty ids, each the id of
  one vertex element of the document, and let no vertex element have the id
  \<^verbatim>\<open>__proto__\<close> and no edge element have an end that is no id of a vertex element but
  a name that a plain object inherits. Import the document, its \<^verbatim>\<open>cells\<close> in any order,
  without clearing, into a graph that has a default parent. Then the import returns,
  and the graph holds an edge made from that element, a child of the default parent,
  whose source and target are the vertices that this import made from those two vertex
  elements. All vertices are created by the first pass, all edges by the second.
\<close>

theorem edge_connected:
  assumes order: "mset (gd_cells d') = mset (gd_cells d)"
    and e: "e \<in> set (gd_cells d)" "gc_type e = Edge"
      "gc_source e = Some s" "gc_target e = Some t" "s \<noteq> []" "t \<noteq> []"
    and vs: "vs \<in> set (gd_cells d)" "gc_type vs = Vertex" "gc_id vs = s"
      "\<forall>v \<in> set (gd_cells d). gc_type v = Vertex \<and> gc_id v = s \<longrightarrow> v = vs"
    and vt: "vt \<in> set (gd_cells d)" "gc_type vt = Vertex" "gc_id vt = t"
      "\<forall>v \<in> set (gd_cells d). gc_type v = Vertex \<and> gc_id v = t \<longrightarrow> v = vt"
    and parent: "getDefaultParent g = Some p"
    and plain: "plain_ends (gd_cells d)"
  shows "\<exists>g' h hs ht c.
    importGraphFromJSON B W g d' False = Inr g' \<and>
    at_index (store g') h = Some c \<and> length (store g) \<le> h \<and>
    isEdge c \<and> getValue c = Some (gc_value e) \<and> getParent c = Some p \<and>
    getSource c = Some (Cell hs) \<and> getTarget c = Some (Cell ht) \<and>
    made_from B g' p (length (store g)) vs hs \<and>
    made_from B g' p (length (store g)) vt ht"
proof -
  let ?es = "gd_cells d'" and ?base = "length (store g)"
  from order have sets: "set ?es = set (gd_cells d)" by (rule mset_eq_setD)
  then have vids: "vertex_ids ?es = vertex_ids (gd_cells d)" by (simp add: vertex_ids_def)
  have ep: "end_plain ?es x = end_plain (gd_cells d) x" for x
    by (simp add: end_plain_def vids)
  from plain have plain': "plain_ends ?es"
    by (simp add: plain_ends_def list_all_iff sets vids ep)
  obtain g2 idm where av: "after_vertices B W g ?es False = (g2, idm)"
    by (cases "after_vertices B W g ?es False")
  from after_vertices_facts [OF parent av]
  have gr: "grows g g2" and ok: "idMap_from B g2 p ?base (set ?es) idm"
    and cov: "\<forall>v \<in> set ?es. gc_type v = Vertex \<longrightarrow> resolves idm (gc_id v)" by blast+
  from plain_ends_lookup [OF plain' ok cov]
  have np: "proto idm = None"
    and pe: "\<forall>e \<in> set ?es. gc_type e = Edge \<and> str_or_undefined (gc_source e) \<noteq> None \<and>
           str_or_undefined (gc_target e) \<noteq> None \<longrightarrow>
         (own idm (str_or_empty (gc_source e)) \<noteq> None \<or> \<not> inherited (str_or_empty (gc_source e))) \<and>
         (own idm (str_or_empty (gc_target e)) \<noteq> None \<or> \<not> inherited (str_or_empty (gc_target e)))"
    by blast+
  have found: "\<exists>h. own idm k = Some h \<and> made_from B g2 p ?base v h"
    if v: "v \<in> set (gd_cells d)" "gc_type v = Vertex" "gc_id v = k"
      "\<forall>u \<in> set (gd_cells d). gc_type u = Vertex \<and> gc_id u = k \<longrightarrow> u = v" for v k
  proof -
    from v(1-3) cov sets have r: "resolves idm k" by blast
    from v(1-3) have "k \<in> vertex_ids (gd_cells d)" by (force simp: vertex_ids_def)
    with plain have "k \<noteq> ''__proto__''" by (auto simp: plain_ends_def)
    with r obtain h where h: "own idm k = Some h" by (auto simp: resolves_def)
    with ok obtain u where "u \<in> set ?es" "gc_type u = Vertex" "gc_id u = k"
      "made_from B g2 p ?base u h" unfolding idMap_from_def by blast
    with v(4) sets have "made_from B g2 p ?base v h" by blast
    with h show ?thesis by blast
  qed
  from found [OF vs] obtain hs where hs: "own idm s = Some hs" "made_from B g2 p ?base vs hs"
    by blast
  from found [OF vt] obtain ht where ht: "own idm t = Some ht" "made_from B g2 p ?base vt ht"
    by blast
  from e(1) sets obtain xs ys where split: "?es = xs @ e # ys" by (metis split_list)
  from pe split have pxs: "\<forall>e \<in> set xs. gc_type e = Edge \<and> str_or_undefined (gc_source e) \<noteq> None \<and>
           str_or_undefined (gc_target e) \<noteq> None \<longrightarrow>
         (own idm (str_or_empty (gc_source e)) \<noteq> None \<or> \<not> inherited (str_or_empty (gc_source e))) \<and>
         (own idm (str_or_empty (gc_target e)) \<noteq> None \<or> \<not> inherited (str_or_empty (gc_target e)))"
    by simp
  from pe split have pys: "\<forall>e \<in> set ys. gc_type e = Edge \<and> str_or_undefined (gc_source e) \<noteq> None \<and>
           str_or_undefined (gc_target e) \<noteq> None \<longrightarrow>
         (own idm (str_or_empty (gc_source e)) \<noteq> None \<or> \<not> inherited (str_or_empty (gc_source e))) \<and>
         (own idm (str_or_empty (gc_target e)) \<noteq> None \<or> \<not> inherited (str_or_empty (gc_target e)))"
    by simp
  from create_edges_plain [OF np pxs, of B W p g2]
  obtain gm where gm: "create_edges B W idm (Some p) xs g2 = Inr gm" "grows g2 gm" by blast
  from gm(2) hs(2) have ms: "made_from B gm p ?base vs hs" by (rule grows_made_from)
  from gm(2) ht(2) have mt: "made_from B gm p ?base vt ht" by (rule grows_made_from)
  from create_edge_connects [OF e(2-6) hs(1) ht(1) made_from_child [OF ms] made_from_child [OF mt],
      of B W]
  obtain c where c: "create_edge B W idm (Some p) e gm = Inr (gm\<lparr>store := store gm @ [c]\<rparr>)"
    "isEdge c" "getValue c = Some (gc_value e)" "getParent c = Some p"
    "getSource c = Some (Cell hs)" "getTarget c = Some (Cell ht)" by blast
  let ?ge = "gm\<lparr>store := store gm @ [c]\<rparr>"
  from create_edges_plain [OF np pys, of B W p ?ge]
  obtain g3 where g3: "create_edges B W idm (Some p) ys ?ge = Inr g3" "grows ?ge g3" by blast
  have all: "create_edges B W idm (Some p) ?es g2 = Inr g3"
    by (simp add: split create_edges_append gm(1) c(1) g3(1))
  have res: "importGraphFromJSON B W g d' False = Inr (with_viewport d' g3)"
    by (simp add: import_stages av cleared_def parent all)
  have "at_index (store ?ge) (length (store gm)) = Some c" by (simp add: at_index_def)
  with g3(2) have at: "at_index (store g3) (length (store gm)) = Some c"
    by (rule grows_at_index)
  have len: "?base \<le> length (store gm)"
    using grows_length [OF gr] grows_length [OF gm(2)] by simp
  have "grows gm ?ge" by (simp add: grows_def)
  with g3(2) have "grows gm g3" by (rule grows_trans [rotated])
  with ms mt have "made_from B g3 p ?base vs hs" "made_from B g3 p ?base vt ht"
    using grows_made_from by blast+
  then have "made_from B (with_viewport d' g3) p ?base vs hs"
    "made_from B (with_viewport d' g3) p ?base vt ht"
    by (simp_all add: made_from_def store_with_viewport)
  with res at len c(2-6) show ?thesis
    by (auto simp: store_with_viewport)
qed

text \<open>The document of the example of the specification, with the edge first and with
  the edge last.\<close>

lemma edge_first_made:
  "edges_made (importGraphFromJSON int_builtins example_widget fresh_graph edge_first_doc False) =
     Inr [(Some ''e1'', Some ''Start'', Some ''End'')]"
  by code_simp

lemma edge_last_made:
  "edges_made (importGraphFromJSON int_builtins example_widget fresh_graph edge_last_doc False) =
     Inr [(Some ''e1'', Some ''Start'', Some ''End'')]"
  by code_simp

lemma fresh_default_parent: "getDefaultParent fresh_graph = Some 1"
  by code_simp

lemma edge_first_plain: "plain_ends (gd_cells edge_first_doc)"
  by code_simp

theorem edge_connected_witness:
  "(\<exists>g' h hs ht c.
      importGraphFromJSON int_builtins example_widget fresh_graph edge_last_doc False = Inr g' \<and>
      at_index (store g') h = Some c \<and> 2 \<le> h \<and>
      isEdge c \<and> getValue c = Some [] \<and> getParent c = Some 1 \<and>
      getSource c = Some (Cell hs) \<and> getTarget c = Some (Cell ht) \<and>
      made_from int_builtins g' 1 2
        (vertex_el ''a'' ''Start'' 0 [(''fillColor'', JStr ''#fff'')]) hs \<and>
      made_from int_builtins g' 1 2 (vertex_el ''b'' ''End'' 200 []) ht) \<and>
   edges_made (importGraphFromJSON int_builtins example_widget fresh_graph edge_first_doc False) =
     Inr [(Some ''e1'', Some ''Start'', Some ''End'')] \<and>
   edges_made (importGraphFromJSON int_builtins example_widget fresh_graph edge_last_doc False) =
     Inr [(Some ''e1'', Some ''Start'', Some ''End'')]"
proof -
  let ?e = "edge_el ''e1'' (Some ''a'') (Some ''b'')"
  let ?a = "vertex_el ''a'' ''Start'' 0 [(''fillColor'', JStr ''#fff'')]"
  let ?b = "vertex_el ''b'' ''End'' 200 []"
  have order: "mset (gd_cells edge_last_doc) = mset (gd_cells edge_first_doc)"
    by (simp add: edge_last_doc_def edge_first_doc_def)
  have e: "?e \<in> set (gd_cells edge_first_doc)" "gc_type ?e = Edge"
    "gc_source ?e = Some ''a''" "gc_target ?e = Some ''b''" "''a'' \<noteq> []" "''b'' \<noteq> []"
    by (simp_all add: edge_first_doc_def edge_el_def)
  have a: "?a \<in> set (gd_cells edge_first_doc)" "gc_type ?a = Vertex" "gc_id ?a = ''a''"
    "\<forall>v \<in> set (gd_cells edge_first_doc). gc_type v = Vertex \<and> gc_id v = ''a'' \<longrightarrow> v = ?a"
    by (simp_all add: edge_first_doc_def edge_el_def vertex_el_def)
  have b: "?b \<in> set (gd_cells edge_first_doc)" "gc_type ?b = Vertex" "gc_id ?b = ''b''"
    "\<forall>v \<in> set (gd_cells edge_first_doc). gc_type v = Vertex \<and> gc_id v = ''b'' \<longrightarrow> v = ?b"
    by (simp_all add: edge_first_doc_def edge_el_def vertex_el_def)
  have len: "length (store fresh_graph) = 2" by (simp add: fresh_graph_def)
  have val: "gc_value ?e = []" by (simp add: edge_el_def)
  from edge_connected [OF order e a b fresh_default_parent edge_first_plain,
      of int_builtins example_widget]
  have "\<exists>g' h hs ht c.
      importGraphFromJSON int_builtins example_widget fresh_graph edge_last_doc False = Inr g' \<and>
      at_index (store g') h = Some c \<and> 2 \<le> h \<and>
      isEdge c \<and> getValue c = Some [] \<and> getParent c = Some 1 \<and>
      getSource c = Some (Cell hs) \<and> getTarget c = Some (Cell ht) \<and>
      made_from int_builtins g' 1 2 ?a hs \<and> made_from int_builtins g' 1 2 ?b ht"
    by (simp only: len val)
  with edge_first_made edge_last_made show ?thesis by blast
qed

text \<open>
  An empty string counts as no id: the export writes it where a cell has none, and
  the import tests the ends of an edge for truthiness. An edge element whose ends are
  empty strings is skipped although a vertex element has the empty id. And with two
  vertex elements of one id the edge ends at the one that comes later in the array.
\<close>

theorem edge_connected_counterexample:
  "cells_made (importGraphFromJSON int_builtins example_widget fresh_graph empty_id_doc False) =
     Inr [(Some ''0'', None, None), (Some ''1'', None, Some 0), (Some [], Some ''V'', Some 1)] \<and>
   edges_made (importGraphFromJSON int_builtins example_widget fresh_graph empty_id_doc False) =
     Inr [] \<and>
   edges_made (importGraphFromJSON int_builtins example_widget fresh_graph
       (twin_doc ''First'' ''Second'') False) =
     Inr [(Some ''e1'', Some ''Second'', Some ''End'')] \<and>
   edges_made (importGraphFromJSON int_builtins example_widget fresh_graph
       (twin_doc ''Second'' ''First'') False) =
     Inr [(Some ''e1'', Some ''First'', Some ''End'')]"
  by code_simp

text \<open>
  Clearing takes the children of the root out of the model, the layer that was the
  default parent among them; the graph then has no default parent, and the cells that
  the two passes create are added nowhere and the edges connected to nothing. The
  amended claim C5 is about an import without clearing.
\<close>

lemma cleared_has_no_parent:
  assumes "defaultParent g = None"
  shows "getDefaultParent (cleared g True) = None"
proof (cases "getRoot g")
  case None
  with assms show ?thesis by (simp add: cleared_def getDefaultParent_def)
next
  case (Some r)
  let ?g = "removeCells g (children g r)"
  have "children ?g r = []"
    by (auto simp: children_def removeCells_def filter_empty_conv)
  with Some assms show ?thesis
    by (simp add: cleared_def getDefaultParent_def removeCells_def)
qed

lemma cleared_import_adds_nothing:
  "cells_made (importGraphFromJSON int_builtins example_widget fresh_graph edge_first_doc True) =
     Inr [(Some ''0'', None, None), (Some ''1'', None, None),
          (Some ''a'', Some ''Start'', None), (Some ''b'', Some ''End'', None),
          (Some ''e1'', Some [], None)] \<and>
   edge_ends (importGraphFromJSON int_builtins example_widget fresh_graph edge_first_doc True) =
     Inr [(Some ''e1'', None, None)] \<and>
   gd_cells (exportGraphToJSON int_builtins
     (case importGraphFromJSON int_builtins example_widget fresh_graph edge_first_doc True of
        Inl err \<Rightarrow> fresh_graph | Inr g \<Rightarrow> g)) = []"
  by code_simp

subsection \<open>Edges whose ends do not resolve\<close>

lemma create_vertex_holds_only:
  assumes "holds_only idm S" and "create_vertex B W parent v (g, idm) = (g', idm')"
  shows "holds_only idm' (S \<union> vertex_ids [v])"
  using assms
  by (cases "gc_type v = Vertex")
    (auto simp: create_vertex_def insertVertex_def graph_insertVertex_def idMap_set_def
      holds_only_def vertex_ids_def Let_def split: if_splits)

lemma vertex_ids_Cons: "vertex_ids (v # es) = vertex_ids [v] \<union> vertex_ids es"
  by (auto simp: vertex_ids_def)

lemma create_vertex_fold_holds_only:
  assumes "holds_only idm S" and "fold (create_vertex B W parent) es (g, idm) = (g', idm')"
  shows "holds_only idm' (S \<union> vertex_ids es)"
  using assms
proof (induction es arbitrary: g idm S)
  case Nil
  then show ?case by (simp add: vertex_ids_def)
next
  case (Cons v es)
  obtain g1 idm1 where s: "create_vertex B W parent v (g, idm) = (g1, idm1)"
    by (cases "create_vertex B W parent v (g, idm)")
  from Cons.prems(1) s have "holds_only idm1 (S \<union> vertex_ids [v])"
    by (rule create_vertex_holds_only)
  moreover from Cons.prems(2) s
  have "fold (create_vertex B W parent) es (g1, idm1) = (g', idm')" by simp
  ultimately have "holds_only idm' (S \<union> vertex_ids [v] \<union> vertex_ids es)"
    by (rule Cons.IH)
  then show ?case by (simp add: vertex_ids_Cons [of v es] Un_assoc)
qed

lemma after_vertices_holds_only:
  "holds_only (snd (after_vertices B W g es c)) (vertex_ids es)"
proof -
  obtain g2 idm where av: "after_vertices B W g es c = (g2, idm)"
    by (cases "after_vertices B W g es c")
  have "holds_only empty_idMap {}" by (simp add: holds_only_def empty_idMap_def)
  from create_vertex_fold_holds_only [OF this av [unfolded after_vertices_def]] av
  show ?thesis by simp
qed

lemma idMap_get_dangling:
  assumes "holds_only idm (vertex_ids es)" and "dangling es x" and "str_or_undefined x = Some k"
  shows "idMap_get W g idm k = None"
proof -
  from assms(2,3) have k: "k \<notin> vertex_ids es" "''__proto__'' \<notin> vertex_ids es" "\<not> inherited k"
    by (auto simp: dangling_def)
  from assms(1) k(1) have "own idm k = None"
    by (cases "own idm k") (auto simp: holds_only_def)
  moreover from assms(1) k(2) have "proto idm = None"
    by (cases "proto idm") (auto simp: holds_only_def)
  ultimately show ?thesis using k(3) by (simp add: idMap_get_def)
qed

lemma str_or_undefined_Some: "str_or_undefined x = Some k \<Longrightarrow> str_or_empty x = k"
  by (auto simp: str_or_undefined_def str_or_empty_def split: option.splits if_splits)

lemma create_edge_dangling:
  assumes "holds_only idm (vertex_ids es)"
    and "dangling es (gc_source e) \<or> dangling es (gc_target e)"
  shows "create_edge B W idm parent e g = Inr g"
proof (cases "gc_type e = Edge \<and> str_or_undefined (gc_source e) \<noteq> None \<and>
    str_or_undefined (gc_target e) \<noteq> None")
  case False
  then show ?thesis by (auto simp: create_edge_def)
next
  case True
  then obtain s t where s: "str_or_undefined (gc_source e) = Some s"
    and t: "str_or_undefined (gc_target e) = Some t" by auto
  from assms(2) have "idMap_get W g idm s = None \<or> idMap_get W g idm t = None"
  proof
    assume "dangling es (gc_source e)"
    then have "idMap_get W g idm s = None" by (rule idMap_get_dangling [OF assms(1) _ s])
    then show ?thesis ..
  next
    assume "dangling es (gc_target e)"
    then have "idMap_get W g idm t = None" by (rule idMap_get_dangling [OF assms(1) _ t])
    then show ?thesis ..
  qed
  then show ?thesis
    using str_or_undefined_Some [OF s] str_or_undefined_Some [OF t]
    by (auto simp: create_edge_def split: option.splits)
qed

lemma create_vertex_edge: "gc_type e = Edge \<Longrightarrow> create_vertex B W parent e st = st"
  by (cases st) (simp add: create_vertex_def)

lemma after_vertices_without_edge:
  "gc_type e = Edge \<Longrightarrow>
     after_vertices B W g (xs @ e # ys) c = after_vertices B W g (xs @ ys) c"
  by (simp add: after_vertices_def create_vertex_edge)

text \<open>
  An edge element with a dangling end changes nothing and raises nothing: the import
  gives what it gives for the document without that element, and so does any later
  export. The ids of the cells of the model are among the ends this covers: a cell
  that is added to the model never has, as its id, a name that a plain object
  inherits, since such an id counts as taken and is replaced.
\<close>

lemma dangling_edge_skipped:
  assumes "gc_type e = Edge"
    and "dangling (xs @ ys) (gc_source e) \<or> dangling (xs @ ys) (gc_target e)"
  shows "importGraphFromJSON B W g (d\<lparr>gd_cells := xs @ e # ys\<rparr>) c =
         importGraphFromJSON B W g (d\<lparr>gd_cells := xs @ ys\<rparr>) c"
proof -
  let ?idm = "snd (after_vertices B W g (xs @ ys) c)"
  let ?parent = "getDefaultParent (cleared g c)"
  have "holds_only ?idm (vertex_ids (xs @ ys))" by (rule after_vertices_holds_only)
  then have skip: "create_edge B W ?idm ?parent e g' = Inr g'" for g'
    using assms(2) by (rule create_edge_dangling)
  have "create_edges B W ?idm ?parent (xs @ e # ys) g' =
        create_edges B W ?idm ?parent (xs @ ys) g'" for g'
    by (simp add: create_edges_append skip split: sum.splits)
  moreover have "with_viewport (d\<lparr>gd_cells := zs\<rparr>) g' = with_viewport d g'" for zs g'
    by (simp add: with_viewport_def)
  ultimately show ?thesis
    by (simp add: import_stages after_vertices_without_edge [OF assms(1)] split: sum.splits)
qed

lemma dangling_edge_not_exported:
  assumes "gc_type e = Edge"
    and "dangling (xs @ ys) (gc_source e) \<or> dangling (xs @ ys) (gc_target e)"
  shows "map_sum id (exportGraphToJSON B)
           (importGraphFromJSON B W g (d\<lparr>gd_cells := xs @ e # ys\<rparr>) c) =
         map_sum id (exportGraphToJSON B)
           (importGraphFromJSON B W g (d\<lparr>gd_cells := xs @ ys\<rparr>) c)"
  using dangling_edge_skipped [OF assms] by simp

lemma added_id_not_inherited:
  assumes "contains g p" and "\<not> taken g (createId W g)"
  shows "\<not> inherited (added_id W g p k)"
  using assms by (auto simp: added_id_def taken_def)

subsection \<open>Ends that a plain object inherits\<close>

text \<open>
  An edge element whose source is no id of a vertex element but a name that a plain
  object inherits, and whose target resolves, is not skipped: in a graph with a default
  parent the import calls \<^verbatim>\<open>insertEdge\<close> with a source that is no cell and ends with
  a \<^verbatim>\<open>TypeError\<close>.
\<close>

lemma create_edges_error: "create_edges B W idm parent es g = Inl err \<Longrightarrow> err = TypeError"
  by (cases err) simp

lemma inherited_source_throws:
  assumes e: "e \<in> set (gd_cells d)" "gc_type e = Edge"
      "gc_source e = Some s" "gc_target e = Some t" "s \<noteq> []" "t \<noteq> []"
    and s: "inherited s" "s \<notin> vertex_ids (gd_cells d)"
    and t: "inherited t \<or> t \<in> vertex_ids (gd_cells d)"
    and np: "''__proto__'' \<notin> vertex_ids (gd_cells d)"
    and parent: "getDefaultParent g = Some p"
  shows "importGraphFromJSON B W g d False = Inl TypeError"
proof -
  let ?es = "gd_cells d"
  obtain g2 idm where av: "after_vertices B W g ?es False = (g2, idm)"
    by (cases "after_vertices B W g ?es False")
  from after_vertices_holds_only [of B W g ?es False] av
  have ho: "holds_only idm (vertex_ids ?es)" by simp
  from after_vertices_facts [OF parent av]
  have cov: "\<forall>v \<in> set ?es. gc_type v = Vertex \<longrightarrow> resolves idm (gc_id v)" by blast
  from ho np have pn: "proto idm = None"
    by (cases "proto idm") (auto simp: holds_only_def)
  from ho s(2) have "own idm s = None"
    by (cases "own idm s") (auto simp: holds_only_def)
  with pn s(1) have ls: "idMap_get W g' idm s = Some Foreign" for g'
    by (simp add: idMap_get_def)
  have lt: "\<exists>x. idMap_get W g' idm t = Some x" for g'
  proof (cases "own idm t")
    case (Some h)
    then show ?thesis by (simp add: idMap_get_def)
  next
    case None
    have "inherited t"
    proof (rule ccontr)
      assume ni: "\<not> inherited t"
      with t obtain v where "v \<in> set ?es" "gc_type v = Vertex" "gc_id v = t"
        by (auto simp: vertex_ids_def)
      with cov have "resolves idm t" by blast
      moreover from ni have "t \<noteq> ''__proto__''" by (auto simp: inherited_def)
      ultimately show False using None by (simp add: resolves_def)
    qed
    with None pn show ?thesis by (simp add: idMap_get_def)
  qed
  have throws: "create_edge B W idm (Some p) e g' = Inl TypeError" for g'
  proof -
    from lt [of g'] obtain x where "idMap_get W g' idm t = Some x" by blast
    with e(2-6) ls [of g'] show ?thesis
      by (simp add: create_edge_def str_or_undefined_def str_or_empty_def insertEdge_def
          graph_insertEdge_def Let_def)
  qed
  from e(1) obtain xs ys where split: "?es = xs @ e # ys" by (metis split_list)
  have "create_edges B W idm (Some p) ?es g2 = Inl TypeError"
  proof (cases "create_edges B W idm (Some p) xs g2")
    case (Inl err)
    then show ?thesis
      using create_edges_error [OF Inl] by (simp add: split create_edges_append)
  next
    case (Inr gm)
    then show ?thesis by (simp add: split create_edges_append throws)
  qed
  then show ?thesis
    by (simp add: import_stages av cleared_def parent)
qed

text \<open>
  Claim C6 says that an edge whose source or target does not resolve to a vertex of
  the document is silently skipped and that no error is raised. \<^verbatim>\<open>idMap\<close> is a plain
  object, so an id that no vertex has still resolves when it names a member inherited
  from \<^verbatim>\<open>Object.prototype\<close>. For a document whose only element is an edge from
  \<^verbatim>\<open>constructor\<close> to \<^verbatim>\<open>toString\<close>, imported without clearing into a new graph, the
  code calls \<^verbatim>\<open>graph.insertEdge\<close> with two values that are no cells, and the import
  ends with a \<^verbatim>\<open>TypeError\<close>; the import of the empty document returns and leaves the
  graph as it was. For an id that a plain object does not inherit the claim holds
  (\<open>dangling_edge_skipped\<close>).
\<close>

theorem inherited_id_not_skipped:
  "importGraphFromJSON int_builtins example_widget fresh_graph inherited_doc False = Inl TypeError \<and>
   importGraphFromJSON int_builtins example_widget fresh_graph empty_doc False = Inr fresh_graph"
  by code_simp

text \<open>With clearing, the same document raises nothing and adds nothing: the graph is
  left without a default parent, and the edge is created but added nowhere.\<close>

lemma inherited_doc_cleared:
  "cells_made (importGraphFromJSON int_builtins example_widget fresh_graph inherited_doc True) =
     Inr [(Some ''0'', None, None), (Some ''1'', None, None), (Some ''e1'', Some [], None)] \<and>
   edge_ends (importGraphFromJSON int_builtins example_widget fresh_graph inherited_doc True) =
     Inr [(Some ''e1'', None, None)]"
  by code_simp

text \<open>
  Claim C10 says that, without clearing, an edge whose source names a vertex of the
  live model that is no vertex element of the document is skipped. Take the graph that
  holds a vertex of id \<^verbatim>\<open>parent\<close>. An edge from \<^verbatim>\<open>parent\<close> in a document of one more
  vertex is skipped, the import giving what it gives without the edge. In a document
  that also has a vertex element of id \<^verbatim>\<open>__proto__\<close>, that vertex becomes the prototype
  of \<^verbatim>\<open>idMap\<close>, and \<^verbatim>\<open>idMap["parent"]\<close> is what the vertex has in its field
  \<^verbatim>\<open>parent\<close>, the layer: the edge is created, from the layer (handle 1) to the new
  vertex \<open>b\<close> (handle 4), not skipped. Its source is not the vertex of the live model
  (handle 2) either. This is the defect shown for claim C6: \<^verbatim>\<open>idMap\<close> is a plain
  object, read without a test for own properties.
\<close>

theorem existing_id_not_skipped:
  "cells_made (Inr live_graph) =
     Inr [(Some ''0'', None, None), (Some ''1'', None, Some 0),
          (Some ''parent'', Some ''Old'', Some 1)] \<and>
   map isVertex (store live_graph) = [False, False, True] \<and>
   shape_made (importGraphFromJSON int_builtins example_widget live_graph proto_doc False) =
     Inr [(None, None), (None, Some 0), (Some ''Old'', Some 1), (Some ''X'', Some 1),
          (Some ''End'', Some 1), (Some [], Some 1)] \<and>
   edge_ends (importGraphFromJSON int_builtins example_widget live_graph proto_doc False) =
     Inr [(Some ''e1'', Some (Cell 1), Some (Cell 4))] \<and>
   importGraphFromJSON int_builtins example_widget live_graph existing_doc False =
     importGraphFromJSON int_builtins example_widget live_graph vertex_only_doc False \<and>
   edge_ends (importGraphFromJSON int_builtins example_widget live_graph existing_doc False) =
     Inr []"
  by code_simp

end
